theory Spec2Isabelle
  imports Complex_Main "HOL-Library.Word" "HOL-Library.Multiset"
begin

unbundle bit_operations_syntax

section \<open>Positions (game.c, lines 26-39)\<close>

text \<open>
  A position is one byte: the column in the high four bits, the row in the low four.
  The macros are applied to values that end up in a \<open>uint8_t\<close>, so they are modelled on
  8-bit words, where the left shift drops the bits that do not fit.
\<close>

type_synonym uint8 = "8 word"

definition GAME_POSITION :: "uint8 \<Rightarrow> uint8 \<Rightarrow> uint8" where
  "GAME_POSITION x y = (push_bit 4 x) OR (y AND 0x0F)"

definition GET_X_POSITION :: "uint8 \<Rightarrow> uint8" where
  "GET_X_POSITION posn = drop_bit 4 posn"

definition GET_Y_POSITION :: "uint8 \<Rightarrow> uint8" where
  "GET_Y_POSITION posn = posn AND 0x0F"

text \<open>
  Modelled from the spec: game.h is not among the sources. The field is 8 columns wide
  and 16 rows high (game.c, line 27, says the same of positions).
\<close>

definition FIELD_WIDTH :: nat where
  "FIELD_WIDTH = 8"

definition FIELD_HEIGHT :: nat where
  "FIELD_HEIGHT = 16"

text \<open>
  Modelled from the spec: game.h is not among the sources. The direction argument of
  \<open>move_base\<close> is an \<open>int8_t\<close> that the code compares with the two constants
  \<open>MOVE_LEFT\<close> and \<open>MOVE_RIGHT\<close>; every other value is \<open>MOVE_OTHER\<close> here.
\<close>

datatype direction = MOVE_LEFT | MOVE_RIGHT | MOVE_OTHER

section \<open>The state (game.c, lines 78-83; project.c, lines 53-57)\<close>

text \<open>
  The global variables of game.c, with the two arrays as lists: the list is the whole
  array, so its length is the declared size (\<open>MAX_ASTEROIDS\<close>, \<open>MAX_PROJECTILES\<close>),
  and only the entries below the count are live. The counts and the base position are
  \<open>int8_t\<close> in the source and \<open>lives\<close> is an \<open>int\<close>; they are integers here, and
  \<open>bags_ok\<close> below keeps the counts inside the range of an \<open>int8_t\<close>.

  \<open>score\<close> is the accumulator of score.c. \<open>rcalls\<close> counts the calls of \<open>random()\<close>
  made so far: the values that \<open>random()\<close> returns are a parameter \<open>rnd\<close> of the
  operations, \<open>rnd k\<close> being the value returned by call number \<open>k\<close>. The last three
  fields are the alarm variables of project.c that \<open>enable_basehit_sound\<close> and
  \<open>handle_basehit_sound\<close> use.

  The calls \<open>redraw_...\<close>, \<open>update_terminal\<close>, \<open>shoot_sound\<close>, \<open>hit_sound\<close> and
  \<open>enable_asteroid_animation\<close> write the LED matrix, the terminal, the buzzer and the
  variables of the shooting tone and of the explosion animation in project.c. They
  assign none of the variables above and are left out of the operations below. So is
  the call of \<open>srand\<close> in \<open>initialise_game\<close>: the theorems hold for every \<open>rnd\<close>.
\<close>

record game =
  basePosition :: int
  numProjectiles :: int
  projectiles :: "uint8 list"
  numAsteroids :: int
  asteroids :: "uint8 list"
  lives :: int
  score :: nat
  rcalls :: nat
  base_hit_sound :: int
  basehit_sequence :: int
  basehit_time :: nat

definition MAX_ASTEROIDS :: "game \<Rightarrow> int" where
  "MAX_ASTEROIDS g = int (length (asteroids g))"

definition MAX_PROJECTILES :: "game \<Rightarrow> int" where
  "MAX_PROJECTILES g = int (length (projectiles g))"

text \<open>
  Modelled from the spec: score.c is not among the sources. \<open>add_to_score\<close> adds the
  amount to the accumulator and \<open>init_score\<close> resets it to 0.
\<close>

definition add_to_score :: "nat \<Rightarrow> game \<Rightarrow> game" where
  "add_to_score amount g = g\<lparr>score := score g + amount\<rparr>"

definition init_score :: "game \<Rightarrow> game" where
  "init_score g = g\<lparr>score := 0\<rparr>"

section \<open>Internal functions (game.c, lines 431-502)\<close>

text \<open>
  The search loop of \<open>asteroid_at\<close> and \<open>projectile_at\<close> (the two bodies are the same
  up to the array): the first index below the count that holds the position, or -1.
\<close>

function position_at :: "int \<Rightarrow> uint8 list \<Rightarrow> uint8 \<Rightarrow> nat \<Rightarrow> int" where
  "position_at n arr positionToCheck i =
     (if int i < n
      then (if arr ! i = positionToCheck then int i
            else position_at n arr positionToCheck (Suc i))
      else - 1)"
  by pat_completeness auto
termination
  by (relation "measure (\<lambda>(n, arr, p, i). nat n - i)") auto

declare position_at.simps [simp del]

definition asteroid_at :: "game \<Rightarrow> uint8 \<Rightarrow> uint8 \<Rightarrow> int" where
  "asteroid_at g x y = position_at (numAsteroids g) (asteroids g) (GAME_POSITION x y) 0"

definition projectile_at :: "game \<Rightarrow> uint8 \<Rightarrow> uint8 \<Rightarrow> int" where
  "projectile_at g x y = position_at (numProjectiles g) (projectiles g) (GAME_POSITION x y) 0"

text \<open>\<open>remove_asteroid\<close>: the last live entry is moved into the freed slot.\<close>

definition remove_asteroid :: "int \<Rightarrow> game \<Rightarrow> game" where
  "remove_asteroid asteroidNumber g =
     (if asteroidNumber < 0 \<or> asteroidNumber \<ge> numAsteroids g then g
      else
        (let g1 = (if asteroidNumber < numAsteroids g - 1
                   then g\<lparr>asteroids := (asteroids g)
                           [nat asteroidNumber := asteroids g ! nat (numAsteroids g - 1)]\<rparr>
                   else g)
         in g1\<lparr>numAsteroids := numAsteroids g1 - 1\<rparr>))"

text \<open>\<open>remove_projectile\<close>: the later entries are moved one slot down, in a loop.\<close>

function close_gap :: "int \<Rightarrow> nat \<Rightarrow> uint8 list \<Rightarrow> uint8 list" where
  "close_gap n i arr =
     (if int i < n then close_gap n (Suc i) (arr[i - 1 := arr ! i]) else arr)"
  by pat_completeness auto
termination
  by (relation "measure (\<lambda>(n, i, arr). nat n - i)") auto

declare close_gap.simps [simp del]

definition remove_projectile :: "int \<Rightarrow> game \<Rightarrow> game" where
  "remove_projectile projectileNumber g =
     (if projectileNumber < 0 \<or> projectileNumber \<ge> numProjectiles g then g
      else g\<lparr>projectiles :=
                close_gap (numProjectiles g) (nat (projectileNumber + 1)) (projectiles g),
             numProjectiles := numProjectiles g - 1\<rparr>)"

section \<open>The alarm (project.c, lines 438-467)\<close>

definition enable_basehit_sound :: "game \<Rightarrow> game" where
  "enable_basehit_sound g = g\<lparr>base_hit_sound := 1, basehit_sequence := 1\<rparr>"

text \<open>
  The delay before a step, \<open>300 - 200*sin(basehit_sequence/0.8)\<close>. The source computes
  it in floating point; it is read here over the reals.
\<close>

definition basehit_delay :: "int \<Rightarrow> real" where
  "basehit_delay s = 300 - 200 * sin (real_of_int s / 0.8)"

text \<open>
  \<open>handle_basehit_sound\<close>, with the two values of \<open>get_current_time()\<close> it reads as
  \<open>t1\<close> (in the test) and \<open>t2\<close> (stored). The tone of a step (\<open>play_sound\<close>, when the
  audio line is high) is issued exactly when the first branch is taken; it is a write
  to the buzzer and leaves the state as it is.
\<close>

definition handle_basehit_sound :: "nat \<Rightarrow> nat \<Rightarrow> game \<Rightarrow> game" where
  "handle_basehit_sound t1 t2 g =
     (let g1 = (if real t1 - basehit_delay (basehit_sequence g) \<ge> real (basehit_time g)
                then g\<lparr>basehit_sequence := basehit_sequence g + 1, basehit_time := t2\<rparr>
                else g)
      in if basehit_sequence g1 = 4 then g1\<lparr>base_hit_sound := 0\<rparr> else g1)"

section \<open>Regeneration (game.c, lines 369-387)\<close>

text \<open>
  The retry loop \<open>do new_x = random() % FIELD_WIDTH; while (asteroid_at(new_x, 15) != -1)\<close>.
  The same loop stands in \<open>advance_asteroids\<close> (lines 290-292). It may run forever, which is
  the value \<open>None\<close>.
\<close>

partial_function (option) free_column :: "(nat \<Rightarrow> nat) \<Rightarrow> game \<Rightarrow> (uint8 \<times> game) option" where
  "free_column rnd g =
     (let new_x = (of_nat (rnd (rcalls g) mod FIELD_WIDTH) :: uint8);
          g1 = g\<lparr>rcalls := Suc (rcalls g)\<rparr>
      in if asteroid_at g1 new_x 15 \<noteq> - 1 then free_column rnd g1 else Some (new_x, g1))"

declare free_column.simps [code]

definition regen_asteroid :: "(nat \<Rightarrow> nat) \<Rightarrow> game \<Rightarrow> game option" where
  "regen_asteroid rnd g =
     Option.bind (free_column rnd g) (\<lambda>(new_x, g1).
       let g2 = g1\<lparr>numAsteroids := numAsteroids g1 + 1\<rparr>
       in Some (g2\<lparr>asteroids := (asteroids g2)
                      [nat (numAsteroids g2 - 1) := GAME_POSITION new_x 15]\<rparr>))"

section \<open>Engine operations (game.c, lines 131-426)\<close>

subsection \<open>\<open>initialise_game\<close>\<close>

text \<open>
  The retry loop of lines 146-154: two calls of \<open>random()\<close> per round, the column and
  then the row, until the cell holds no asteroid.
\<close>

partial_function (option) free_cell ::
  "(nat \<Rightarrow> nat) \<Rightarrow> game \<Rightarrow> (uint8 \<times> uint8 \<times> game) option" where
  "free_cell rnd g =
     (let x = (of_nat (rnd (rcalls g) mod FIELD_WIDTH) :: uint8);
          y = (of_nat (3 + rnd (Suc (rcalls g)) mod (FIELD_HEIGHT - 3)) :: uint8);
          g1 = g\<lparr>rcalls := rcalls g + 2\<rparr>
      in if asteroid_at g1 x y \<noteq> - 1 then free_cell rnd g1 else Some (x, y, g1))"

declare free_cell.simps [code]

text \<open>The \<open>for\<close> loop of lines 143-159, \<open>mx\<close> being \<open>MAX_ASTEROIDS\<close>.\<close>

function initialise_loop :: "(nat \<Rightarrow> nat) \<Rightarrow> int \<Rightarrow> nat \<Rightarrow> game \<Rightarrow> game option" where
  "initialise_loop rnd mx i g =
     (if int i < mx
      then Option.bind (free_cell rnd g) (\<lambda>(x, y, g1).
             initialise_loop rnd mx (Suc i)
               (g1\<lparr>asteroids := (asteroids g1)[i := GAME_POSITION x y],
                   numAsteroids := numAsteroids g1 + 1\<rparr>))
      else Some g)"
  by pat_completeness auto
termination
  by (relation "measure (\<lambda>(rnd, mx, i, g). nat mx - i)") auto

declare initialise_loop.simps [simp del]

definition initialise_game :: "(nat \<Rightarrow> nat) \<Rightarrow> game \<Rightarrow> game option" where
  "initialise_game rnd g =
     initialise_loop rnd (MAX_ASTEROIDS g) 0
       (g\<lparr>basePosition := 3, numProjectiles := 0, numAsteroids := 0, lives := 4\<rparr>)"

text \<open>
  \<open>new_game\<close> of project.c (lines 188-214): \<open>initialise_game\<close>, then \<open>init_score\<close>,
  then the alarm variables, \<open>now\<close> being the value of \<open>get_current_time()\<close>.
\<close>

definition new_game :: "(nat \<Rightarrow> nat) \<Rightarrow> nat \<Rightarrow> game \<Rightarrow> game option" where
  "new_game rnd now g =
     Option.bind (initialise_game rnd g) (\<lambda>g1.
       Some ((init_score g1)\<lparr>basehit_sequence := 1, basehit_time := now\<rparr>))"

subsection \<open>\<open>move_base\<close>\<close>

text \<open>
  The block that \<open>move_base\<close> repeats for each of the four cells it tests:
  \<open>if (asteroid_at(x,y) != -1) { enable_basehit_sound(); lives = lives - 1;
  remove_asteroid(asteroid_at(x,y)); }\<close>.
\<close>

definition base_ram :: "uint8 \<Rightarrow> uint8 \<Rightarrow> game \<Rightarrow> game" where
  "base_ram x y g =
     (if asteroid_at g x y \<noteq> - 1
      then (let g1 = enable_basehit_sound g;
                g2 = g1\<lparr>lives := lives g1 - 1\<rparr>
            in remove_asteroid (asteroid_at g2 x y) g2)
      else g)"

definition move_base :: "direction \<Rightarrow> game \<Rightarrow> int \<times> game" where
  "move_base direction g =
     (if direction = MOVE_LEFT \<and> basePosition g \<noteq> 0 then
        (let g1 = base_ram (of_int (basePosition g - 2)) 0 g;
             g2 = base_ram (of_int (basePosition g1 - 1)) 1 g1
         in (1, g2\<lparr>basePosition := basePosition g2 - 1\<rparr>))
      else if direction = MOVE_RIGHT \<and> basePosition g \<noteq> 7 then
        (let g1 = base_ram (of_int (basePosition g + 2)) 0 g;
             g2 = base_ram (of_int (basePosition g1 + 1)) 1 g1
         in (1, g2\<lparr>basePosition := basePosition g2 + 1\<rparr>))
      else (0, g))"

subsection \<open>\<open>fire_projectile\<close>\<close>

definition fire_projectile :: "(nat \<Rightarrow> nat) \<Rightarrow> game \<Rightarrow> (int \<times> game) option" where
  "fire_projectile rnd g =
     (if numProjectiles g < MAX_PROJECTILES g
         \<and> projectile_at g (of_int (basePosition g)) 2 = - 1
      then
        (if asteroid_at g (of_int (basePosition g)) 2 \<noteq> - 1
         then Option.bind
                (regen_asteroid rnd
                   (remove_asteroid (asteroid_at g (of_int (basePosition g)) 2) g))
                (\<lambda>g1. Some (1, add_to_score 1 g1))
         else (let newProjectileNumber = numProjectiles g;
                   g1 = g\<lparr>numProjectiles := numProjectiles g + 1\<rparr>
               in Some (1, g1\<lparr>projectiles := (projectiles g1)
                                [nat newProjectileNumber :=
                                   GAME_POSITION (of_int (basePosition g1)) 2]\<rparr>)))
      else Some (0, g))"

subsection \<open>\<open>advance_asteroids\<close>\<close>

text \<open>The body of the two loops (lines 257-300), at the cell \<open>(x, y)\<close>.\<close>

definition advance_cell :: "(nat \<Rightarrow> nat) \<Rightarrow> int \<Rightarrow> int \<Rightarrow> game \<Rightarrow> game option" where
  "advance_cell rnd x y g =
     (if asteroid_at g (of_int x) (of_int y) \<noteq> - 1 then
        (let g1 = remove_asteroid (asteroid_at g (of_int x) (of_int y)) g in
         if projectile_at g1 (of_int x) (of_int y) \<noteq> - 1 then
           regen_asteroid rnd
             (add_to_score 1
                (remove_projectile (projectile_at g1 (of_int x) (of_int y)) g1))
         else if projectile_at g1 (of_int x) (of_int (y - 1)) \<noteq> - 1 then
           regen_asteroid rnd
             (add_to_score 1
                (remove_projectile (projectile_at g1 (of_int x) (of_int (y - 1))) g1))
         else if (basePosition g1 = x \<and> y = 2) \<or> (basePosition g1 = x + 1 \<and> y = 1)
                 \<or> (basePosition g1 = x - 1 \<and> y = 1) then
           regen_asteroid rnd (enable_basehit_sound (g1\<lparr>lives := lives g1 - 1\<rparr>))
         else
           (let g2 = g1\<lparr>numAsteroids := numAsteroids g1 + 1\<rparr> in
            if y \<noteq> 0 then
              Some (g2\<lparr>asteroids := (asteroids g2)
                         [nat (numAsteroids g2 - 1) :=
                            GAME_POSITION (of_int x) (of_int (y - 1))]\<rparr>)
            else
              Option.bind (free_column rnd g2) (\<lambda>(new_x, g3).
                Some (g3\<lparr>asteroids := (asteroids g3)
                           [nat (numAsteroids g3 - 1) := GAME_POSITION new_x 15]\<rparr>))))
      else Some g)"

function advance_asteroids_y :: "(nat \<Rightarrow> nat) \<Rightarrow> int \<Rightarrow> int \<Rightarrow> game \<Rightarrow> game option" where
  "advance_asteroids_y rnd x y g =
     (if y < 16
      then Option.bind (advance_cell rnd x y g) (advance_asteroids_y rnd x (y + 1))
      else Some g)"
  by pat_completeness auto
termination
  by (relation "measure (\<lambda>(rnd, x, y, g). nat (16 - y))") auto

declare advance_asteroids_y.simps [simp del]

function advance_asteroids_x :: "(nat \<Rightarrow> nat) \<Rightarrow> int \<Rightarrow> game \<Rightarrow> game option" where
  "advance_asteroids_x rnd x g =
     (if x < 8
      then Option.bind (advance_asteroids_y rnd x 0 g) (advance_asteroids_x rnd (x + 1))
      else Some g)"
  by pat_completeness auto
termination
  by (relation "measure (\<lambda>(rnd, x, g). nat (8 - x))") auto

declare advance_asteroids_x.simps [simp del]

definition advance_asteroids :: "(nat \<Rightarrow> nat) \<Rightarrow> game \<Rightarrow> game option" where
  "advance_asteroids rnd g = advance_asteroids_x rnd 0 g"

subsection \<open>\<open>advance_projectiles\<close>\<close>

text \<open>
  The \<open>while\<close> loop of lines 313-366. A round either removes the projectile at
  \<open>projectileNumber\<close> and stays at that index, or moves it up and goes to the next
  index. The loop returns nothing when \<open>regen_asteroid\<close> does not.
\<close>

partial_function (option) advance_projectiles_loop ::
  "(nat \<Rightarrow> nat) \<Rightarrow> nat \<Rightarrow> game \<Rightarrow> game option" where
  "advance_projectiles_loop rnd projectileNumber g =
     (if int projectileNumber < numProjectiles g then
        (let x = GET_X_POSITION (projectiles g ! projectileNumber);
             y = GET_Y_POSITION (projectiles g ! projectileNumber) + 1
         in if y = of_nat FIELD_HEIGHT then
              advance_projectiles_loop rnd projectileNumber
                (remove_projectile (int projectileNumber) g)
            else if asteroid_at g x y \<noteq> - 1 then
              (let g1 = remove_projectile (int projectileNumber) g;
                   g2 = remove_asteroid (asteroid_at g1 x y) g1
               in Option.bind (regen_asteroid rnd (add_to_score 1 g2))
                    (advance_projectiles_loop rnd projectileNumber))
            else
              advance_projectiles_loop rnd (Suc projectileNumber)
                (g\<lparr>projectiles := (projectiles g)
                      [projectileNumber := GAME_POSITION x y]\<rparr>))
      else Some g)"

declare advance_projectiles_loop.simps [code]

definition advance_projectiles :: "(nat \<Rightarrow> nat) \<Rightarrow> game \<Rightarrow> game option" where
  "advance_projectiles rnd g = advance_projectiles_loop rnd 0 g"

subsection \<open>\<open>is_game_over\<close>\<close>

definition is_game_over :: "game \<Rightarrow> int" where
  "is_game_over g = (if lives g < 1 then 1 else 0)"

section \<open>The asteroid timer of the game loop (project.c, line 365)\<close>

text \<open>
  \<open>current_time >= last_asteroid_time + 500 - get_score()*1.8\<close>. The source evaluates
  the right-hand side in floating point; it is read here over the reals. The interval
  is what the elapsed time is compared with.
\<close>

definition asteroid_interval :: "nat \<Rightarrow> real" where
  "asteroid_interval sc = 500 - real sc * 1.8"

definition asteroids_due :: "nat \<Rightarrow> nat \<Rightarrow> nat \<Rightarrow> bool" where
  "asteroids_due current_time last_asteroid_time sc =
     (real current_time \<ge> real (last_asteroid_time + 500) - real sc * 1.8)"

section \<open>Properties of a state\<close>

text \<open>The live entries of the two arrays: those below the count.\<close>

definition live_asteroids :: "game \<Rightarrow> uint8 list" where
  "live_asteroids g = take (nat (numAsteroids g)) (asteroids g)"

definition live_projectiles :: "game \<Rightarrow> uint8 list" where
  "live_projectiles g = take (nat (numProjectiles g)) (projectiles g)"

text \<open>
  The bounds that the comments of game.c (lines 62-76) put on the counts; the arrays
  are small enough for a count to fit an \<open>int8_t\<close>.
\<close>

definition bags_ok :: "game \<Rightarrow> bool" where
  "bags_ok g =
     (0 \<le> numAsteroids g \<and> numAsteroids g \<le> MAX_ASTEROIDS g \<and> MAX_ASTEROIDS g \<le> 127
      \<and> 0 \<le> numProjectiles g \<and> numProjectiles g \<le> MAX_PROJECTILES g
      \<and> MAX_PROJECTILES g \<le> 127)"

text \<open>The cell of a position, and the states where no cell holds two entities of a kind.\<close>

definition cell :: "uint8 \<Rightarrow> uint8 \<times> uint8" where
  "cell posn = (GET_X_POSITION posn, GET_Y_POSITION posn)"

definition no_shared_cell :: "game \<Rightarrow> bool" where
  "no_shared_cell g =
     (distinct (map cell (live_asteroids g)) \<and> distinct (map cell (live_projectiles g)))"

text \<open>
  The states that the program reaches: \<open>new_game\<close> starts a game from any state of the
  variables, and \<open>play_game\<close> calls the four operations only while \<open>is_game_over\<close>
  returns 0 (project.c, lines 245, 365, 374 and 384), and there it also services the
  alarm (line 417).
\<close>

inductive reachable :: "(nat \<Rightarrow> nat) \<Rightarrow> game \<Rightarrow> bool" for rnd :: "nat \<Rightarrow> nat" where
  start: "MAX_ASTEROIDS g0 \<le> 127 \<Longrightarrow> MAX_PROJECTILES g0 \<le> 127 \<Longrightarrow>
          new_game rnd now g0 = Some g \<Longrightarrow> reachable rnd g"
| move: "reachable rnd g \<Longrightarrow> is_game_over g = 0 \<Longrightarrow> move_base d g = (r, g') \<Longrightarrow>
         reachable rnd g'"
| fire: "reachable rnd g \<Longrightarrow> is_game_over g = 0 \<Longrightarrow> fire_projectile rnd g = Some (r, g') \<Longrightarrow>
         reachable rnd g'"
| asteroids: "reachable rnd g \<Longrightarrow> is_game_over g = 0 \<Longrightarrow> advance_asteroids rnd g = Some g' \<Longrightarrow>
         reachable rnd g'"
| projectiles: "reachable rnd g \<Longrightarrow> is_game_over g = 0 \<Longrightarrow>
         advance_projectiles rnd g = Some g' \<Longrightarrow> reachable rnd g'"
| alarm: "reachable rnd g \<Longrightarrow> is_game_over g = 0 \<Longrightarrow> base_hit_sound g \<noteq> 0 \<Longrightarrow>
         reachable rnd (handle_basehit_sound t1 t2 g)"

text \<open>A sequence of \<open>move_base\<close> calls.\<close>

fun move_base_seq :: "direction list \<Rightarrow> game \<Rightarrow> game" where
  "move_base_seq [] g = g"
| "move_base_seq (d # ds) g = move_base_seq ds (snd (move_base d g))"

section \<open>Example states\<close>

text \<open>The base at the left edge, with a projectile at (0,5) and two asteroids.\<close>

definition left_edge_state :: game where
  "left_edge_state = \<lparr>basePosition = 0, numProjectiles = 1, projectiles = [0x05, 0],
     numAsteroids = 2, asteroids = [0x13, 0x2F, 0],
     lives = 3, score = 2, rcalls = 7,
     base_hit_sound = 0, basehit_sequence = 4, basehit_time = 40\<rparr>"

text \<open>An alarm that is running: step 3 is due, the last step was at time 0.\<close>

definition alarm_state :: game where
  "alarm_state = \<lparr>basePosition = 3, numProjectiles = 0, projectiles = [0, 0],
     numAsteroids = 1, asteroids = [0x5F, 0],
     lives = 3, score = 0, rcalls = 0,
     base_hit_sound = 1, basehit_sequence = 3, basehit_time = 0\<rparr>"

text \<open>The states where each of the 8 cells of row 15 holds an asteroid.\<close>

definition top_row_full :: "game \<Rightarrow> bool" where
  "top_row_full g = list_all (\<lambda>c. asteroid_at g (of_nat c) 15 \<noteq> - 1) [0..<8]"

text \<open>
  Nine asteroids, at (3,0) and in every cell of row 15; the base at column 6 and no
  projectile.
\<close>

definition full_row_state :: game where
  "full_row_state = \<lparr>basePosition = 6, numProjectiles = 0, projectiles = [0, 0],
     numAsteroids = 9,
     asteroids = [0x0F, 0x1F, 0x2F, 0x30, 0x3F, 0x4F, 0x5F, 0x6F, 0x7F, 0],
     lives = 4, score = 3, rcalls = 0,
     base_hit_sound = 0, basehit_sequence = 1, basehit_time = 0\<rparr>"






text \<open>
  A run that ends below zero lives. The arrays hold 5 asteroids and 2 projectiles. The
  draws place the asteroids at (3,4), (2,3), (4,3), (6,3) and (5,4); the later draws are
  0, 1, 2 and so on.
\<close>

definition blank_state :: game where
  "blank_state = \<lparr>basePosition = 0, numProjectiles = 0, projectiles = [0, 0],
     numAsteroids = 0, asteroids = [0, 0, 0, 0, 0],
     lives = 0, score = 0, rcalls = 0,
     base_hit_sound = 0, basehit_sequence = 0, basehit_time = 0\<rparr>"

definition hit_draws :: "nat \<Rightarrow> nat" where
  "hit_draws k = (if k < 10 then [3, 1, 2, 0, 4, 0, 6, 0, 5, 1] ! k else k - 10)"

text \<open>
  The state of this run after two passes of \<open>advance_asteroids\<close>: the base at column 3,
  asteroids at (5,2), (3,2), (2,1), (4,1) and (6,1).
\<close>

definition ram_state :: game where
  "ram_state = \<lparr>basePosition = 3, numProjectiles = 0, projectiles = [0, 0],
        numAsteroids = 5, asteroids = [82, 50, 33, 65, 97], lives = 4,
        score = 0, rcalls = 10, base_hit_sound = 0, basehit_sequence = 1,
        basehit_time = 0\<rparr>"

text \<open>
  The end of the run: a third pass, where three asteroids reach the base, and two
  moves to the right, the second into the asteroids at (5,1) and (6,0).
\<close>

definition out_of_lives_state :: game where
  "out_of_lives_state = \<lparr>basePosition = 5, numProjectiles = 0, projectiles = [0, 0],
        numAsteroids = 3, asteroids = [47, 15, 31, 31, 96], lives = - 1,
        score = 0, rcalls = 13, base_hit_sound = 1, basehit_sequence = 1,
        basehit_time = 0\<rparr>"

text \<open>
  The invariant of the engine: the counts are within the arrays, and no position occurs
  twice among the live asteroids or twice among the live projectiles.
\<close>

definition engine_inv :: "game \<Rightarrow> bool" where
  "engine_inv g =
     (bags_ok g \<and> distinct (live_asteroids g) \<and> distinct (live_projectiles g))"

text \<open>
  The projectiles in the course of \<open>advance_projectiles\<close>, at index \<open>k\<close>: those below
  the index have moved up one row (their position is one more than it was), the others
  have not, and the positions before the pass are apart.
\<close>

definition apart_at :: "nat \<Rightarrow> uint8 list \<Rightarrow> bool" where
  "apart_at k xs = distinct (map (\<lambda>p. p - 1) (take k xs) @ drop k xs)"


section \<open>The search loop\<close>

lemma position_at_found:
  "position_at n arr p i \<noteq> - 1 \<Longrightarrow>
     int i \<le> position_at n arr p i \<and> position_at n arr p i < n
     \<and> arr ! nat (position_at n arr p i) = p"
proof (induction n arr p i rule: position_at.induct)
  case (1 n arr p i)
  show ?case
  proof (cases "int i < n")
    case False
    with "1.prems" show ?thesis by (simp add: position_at.simps [of n arr p i])
  next
    case True
    show ?thesis
    proof (cases "arr ! i = p")
      case hit: True
      with True show ?thesis by (simp add: position_at.simps [of n arr p i])
    next
      case miss: False
      have eq: "position_at n arr p i = position_at n arr p (Suc i)"
        using True miss by (simp add: position_at.simps [of n arr p i])
      with "1.IH" [OF True miss] "1.prems" show ?thesis by auto
    qed
  qed
qed

lemma position_at_none:
  "(position_at n arr p i = - 1) = (\<forall>k. i \<le> k \<and> int k < n \<longrightarrow> arr ! k \<noteq> p)"
proof (induction n arr p i rule: position_at.induct)
  case (1 n arr p i)
  show ?case
  proof (cases "int i < n")
    case False
    then show ?thesis by (auto simp add: position_at.simps [of n arr p i])
  next
    case True
    show ?thesis
    proof (cases "arr ! i = p")
      case hit: True
      with True show ?thesis by (auto simp add: position_at.simps [of n arr p i])
    next
      case miss: False
      have eq: "position_at n arr p i = position_at n arr p (Suc i)"
        using True miss by (simp add: position_at.simps [of n arr p i])
      have "(\<forall>k. Suc i \<le> k \<and> int k < n \<longrightarrow> arr ! k \<noteq> p) = (\<forall>k. i \<le> k \<and> int k < n \<longrightarrow> arr ! k \<noteq> p)"
        using miss by (metis Suc_leD Suc_leI le_neq_implies_less)
      with "1.IH" [OF True miss] eq show ?thesis by simp
    qed
  qed
qed

lemma position_at_set:
  assumes "n \<le> int (length arr)"
  shows "(position_at n arr p 0 = - 1) = (p \<notin> set (take (nat n) arr))"
proof -
  have "(p \<in> set (take (nat n) arr)) = (\<exists>k. int k < n \<and> arr ! k = p)"
  proof
    assume "p \<in> set (take (nat n) arr)"
    then obtain k where "k < length (take (nat n) arr)" "take (nat n) arr ! k = p"
      by (auto simp add: in_set_conv_nth)
    then have "int k < n \<and> arr ! k = p" by auto
    then show "\<exists>k. int k < n \<and> arr ! k = p" ..
  next
    assume "\<exists>k. int k < n \<and> arr ! k = p"
    then obtain k where k: "int k < n" "arr ! k = p" by auto
    then have "k < length (take (nat n) arr)" using assms by auto
    moreover have "take (nat n) arr ! k = p" using k by auto
    ultimately show "p \<in> set (take (nat n) arr)" by (metis nth_mem)
  qed
  then show ?thesis by (auto simp add: position_at_none)
qed

subsection \<open>Lists\<close>

lemma swap_remove_distinct:
  assumes "distinct xs" and "i < length xs"
  shows "distinct (butlast (xs[i := last xs]))
         \<and> set (butlast (xs[i := last xs])) = set xs - {xs ! i}"
proof (cases xs rule: rev_cases)
  case Nil
  with assms show ?thesis by simp
next
  case (snoc ys l)
  show ?thesis
  proof (cases "i = length ys")
    case True
    with snoc assms show ?thesis by auto
  next
    case False
    with assms snoc have i: "i < length ys" by simp
    have d: "distinct ys" "l \<notin> set ys" using assms snoc by auto
    have upd: "xs[i := last xs] = ys[i := l] @ [l]"
      using snoc i by (simp add: list_update_append)
    have "set (ys[i := l]) = insert l (set ys - {ys ! i})"
      using d i by (simp add: set_update_distinct)
    moreover have "distinct (ys[i := l])"
      using d i by (simp add: distinct_list_update)
    moreover have "xs ! i = ys ! i" using snoc i by (simp add: nth_append)
    moreover have "ys ! i \<noteq> l" using d i by (metis nth_mem)
    ultimately show ?thesis using upd snoc d by auto
  qed
qed


lemma take_append_entry:
  "n < length arr \<Longrightarrow> take (Suc n) (arr[n := p]) = take n arr @ [p]"
  by (simp add: take_Suc_conv_app_nth)

lemma close_gap_length [simp]: "length (close_gap n i arr) = length arr"
proof (induction n i arr rule: close_gap.induct)
  case (1 n i arr)
  then show ?case by (simp add: close_gap.simps [of n i arr])
qed

lemma close_gap_take:
  "n \<le> int (length arr) \<Longrightarrow> 0 < k \<Longrightarrow> int k \<le> n \<Longrightarrow>
   take (nat n - 1) (close_gap n k arr) = take (k - 1) arr @ drop k (take (nat n) arr)"
proof (induction n k arr rule: close_gap.induct)
  case (1 n i arr)
  show ?case
  proof (cases "int i < n")
    case False
    with "1.prems" have "int i = n" by simp
    then have "nat n = i" by simp
    then show ?thesis using False by (simp add: close_gap.simps [of n i arr])
  next
    case True
    let ?arr = "arr[i - 1 := arr ! i]"
    have il: "i < length arr" using True "1.prems" by simp
    have "take (nat n - 1) (close_gap n (Suc i) ?arr)
            = take (Suc i - 1) ?arr @ drop (Suc i) (take (nat n) ?arr)"
      using "1.IH" [OF True] "1.prems" True by simp
    moreover have "take (Suc i - 1) ?arr = take (i - 1) arr @ [arr ! i]"
      using "1.prems" il
      by (metis Suc_pred diff_Suc_1 less_imp_diff_less take_append_entry)
    moreover have "drop (Suc i) (take (nat n) ?arr) = drop (Suc i) (take (nat n) arr)"
      by (simp add: take_update_swap drop_update_cancel)
    moreover have "arr ! i # drop (Suc i) (take (nat n) arr) = drop i (take (nat n) arr)"
    proof -
      have "i < length (take (nat n) arr)" using True il by simp
      from Cons_nth_drop_Suc [OF this] show ?thesis using True by simp
    qed
    ultimately show ?thesis
      using True by (simp add: close_gap.simps [of n i arr])
  qed
qed

subsection \<open>Searching a bag\<close>

lemma asteroid_at_none:
  "numAsteroids g \<le> MAX_ASTEROIDS g \<Longrightarrow>
   (asteroid_at g x y = - 1) = (GAME_POSITION x y \<notin> set (live_asteroids g))"
  by (simp add: asteroid_at_def live_asteroids_def MAX_ASTEROIDS_def position_at_set)

lemma asteroid_at_found:
  "asteroid_at g x y \<noteq> - 1 \<Longrightarrow>
   0 \<le> asteroid_at g x y \<and> asteroid_at g x y < numAsteroids g
   \<and> asteroids g ! nat (asteroid_at g x y) = GAME_POSITION x y"
  using position_at_found [of "numAsteroids g" "asteroids g" "GAME_POSITION x y" 0]
  by (simp add: asteroid_at_def)

lemma projectile_at_none:
  "numProjectiles g \<le> MAX_PROJECTILES g \<Longrightarrow>
   (projectile_at g x y = - 1) = (GAME_POSITION x y \<notin> set (live_projectiles g))"
  by (simp add: projectile_at_def live_projectiles_def MAX_PROJECTILES_def position_at_set)

lemma projectile_at_found:
  "projectile_at g x y \<noteq> - 1 \<Longrightarrow>
   0 \<le> projectile_at g x y \<and> projectile_at g x y < numProjectiles g
   \<and> projectiles g ! nat (projectile_at g x y) = GAME_POSITION x y"
  using position_at_found [of "numProjectiles g" "projectiles g" "GAME_POSITION x y" 0]
  by (simp add: projectile_at_def)

subsection \<open>\<open>remove_asteroid\<close>\<close>

lemma remove_asteroid_fields [simp]:
  "basePosition (remove_asteroid i g) = basePosition g"
  "numProjectiles (remove_asteroid i g) = numProjectiles g"
  "projectiles (remove_asteroid i g) = projectiles g"
  "lives (remove_asteroid i g) = lives g"
  "score (remove_asteroid i g) = score g"
  "rcalls (remove_asteroid i g) = rcalls g"
  "base_hit_sound (remove_asteroid i g) = base_hit_sound g"
  "basehit_sequence (remove_asteroid i g) = basehit_sequence g"
  "basehit_time (remove_asteroid i g) = basehit_time g"
  "length (asteroids (remove_asteroid i g)) = length (asteroids g)"
  by (simp_all add: remove_asteroid_def Let_def)

lemma remove_asteroid_count:
  "0 \<le> i \<Longrightarrow> i < numAsteroids g \<Longrightarrow>
   numAsteroids (remove_asteroid i g) = numAsteroids g - 1"
  by (simp add: remove_asteroid_def Let_def)

lemma remove_asteroid_live:
  assumes "0 \<le> i" and "i < numAsteroids g" and "numAsteroids g \<le> MAX_ASTEROIDS g"
  shows "live_asteroids (remove_asteroid i g)
           = butlast ((live_asteroids g)[nat i := last (live_asteroids g)])"
proof -
  let ?n = "nat (numAsteroids g)"
  let ?arr = "asteroids g"
  have n: "0 < ?n" "?n \<le> length ?arr" "nat i < ?n"
    using assms by (simp_all add: MAX_ASTEROIDS_def)
  have len: "length (take ?n ?arr) = ?n" using n by simp
  have last: "last (take ?n ?arr) = ?arr ! (?n - 1)"
    using n len by (metis last_conv_nth length_greater_0_conv diff_less nth_take zero_less_one)
  have nn: "nat (numAsteroids g - 1) = ?n - 1" by simp
  have rhs: "butlast ((take ?n ?arr)[nat i := ?arr ! (?n - 1)])
               = take (?n - 1) (?arr[nat i := ?arr ! (?n - 1)])"
    using n len by (simp add: butlast_conv_take take_update_swap min_def)
  show ?thesis
  proof (cases "i < numAsteroids g - 1")
    case True
    then show ?thesis using assms last rhs nn
      by (simp add: remove_asteroid_def live_asteroids_def Let_def)
  next
    case False
    with assms have i: "nat i = ?n - 1" by simp
    have "take (?n - 1) (?arr[?n - 1 := ?arr ! (?n - 1)]) = take (?n - 1) ?arr"
      by simp
    then show ?thesis using False assms last rhs nn i
      by (simp add: remove_asteroid_def live_asteroids_def Let_def)
  qed
qed

subsection \<open>\<open>remove_projectile\<close>\<close>

lemma remove_projectile_fields [simp]:
  "basePosition (remove_projectile i g) = basePosition g"
  "numAsteroids (remove_projectile i g) = numAsteroids g"
  "asteroids (remove_projectile i g) = asteroids g"
  "lives (remove_projectile i g) = lives g"
  "score (remove_projectile i g) = score g"
  "rcalls (remove_projectile i g) = rcalls g"
  "base_hit_sound (remove_projectile i g) = base_hit_sound g"
  "basehit_sequence (remove_projectile i g) = basehit_sequence g"
  "basehit_time (remove_projectile i g) = basehit_time g"
  "length (projectiles (remove_projectile i g)) = length (projectiles g)"
  by (simp_all add: remove_projectile_def)

lemma remove_projectile_count:
  "0 \<le> i \<Longrightarrow> i < numProjectiles g \<Longrightarrow>
   numProjectiles (remove_projectile i g) = numProjectiles g - 1"
  by (simp add: remove_projectile_def)

lemma remove_projectile_live:
  assumes "0 \<le> i" and "i < numProjectiles g" and "numProjectiles g \<le> MAX_PROJECTILES g"
  shows "live_projectiles (remove_projectile i g)
           = take (nat i) (live_projectiles g) @ drop (Suc (nat i)) (live_projectiles g)"
proof -
  have "take (nat (numProjectiles g) - 1)
          (close_gap (numProjectiles g) (nat (i + 1)) (projectiles g))
        = take (nat (i + 1) - 1) (projectiles g)
          @ drop (nat (i + 1)) (take (nat (numProjectiles g)) (projectiles g))"
    using assms by (intro close_gap_take) (simp_all add: MAX_PROJECTILES_def)
  moreover have "nat (i + 1) = Suc (nat i)" using assms by simp
  moreover have "nat (numProjectiles g - 1) = nat (numProjectiles g) - 1" by simp
  moreover have "take (nat i) (take (nat (numProjectiles g)) (projectiles g))
                 = take (nat i) (projectiles g)"
    using assms by (simp add: min_def)
  ultimately show ?thesis using assms
    by (simp add: remove_projectile_def live_projectiles_def)
qed

lemma live_asteroids_append:
  assumes "0 \<le> numAsteroids g" and "numAsteroids g < MAX_ASTEROIDS g"
  shows "take (nat (numAsteroids g + 1)) ((asteroids g)[nat (numAsteroids g) := p])
           = live_asteroids g @ [p]"
proof -
  have "nat (numAsteroids g + 1) = Suc (nat (numAsteroids g))" using assms by simp
  moreover have "nat (numAsteroids g) < length (asteroids g)"
    using assms by (simp add: MAX_ASTEROIDS_def)
  ultimately show ?thesis
    by (simp add: live_asteroids_def take_append_entry)
qed

subsection \<open>The retry loops\<close>

lemma asteroid_at_rcalls [simp]: "asteroid_at (g\<lparr>rcalls := k\<rparr>) x y = asteroid_at g x y"
  by (simp add: asteroid_at_def)

lemma free_column_Some:
  assumes "free_column rnd g = Some r"
  shows "(\<exists>k. rcalls g < k \<and> snd r = g\<lparr>rcalls := k\<rparr>)
         \<and> asteroid_at g (fst r) 15 = - 1
         \<and> (\<exists>c<8. fst r = of_nat c)"
proof (rule free_column.raw_induct
    [where P = "\<lambda>rnd g r. (\<exists>k. rcalls g < k \<and> snd r = g\<lparr>rcalls := k\<rparr>)
         \<and> asteroid_at g (fst r) 15 = - 1 \<and> (\<exists>c<8. fst r = of_nat c)", OF _ assms])
  fix f :: "(nat \<Rightarrow> nat) \<Rightarrow> game \<Rightarrow> (uint8 \<times> game) option"
  fix rnd :: "nat \<Rightarrow> nat" and g :: game and r :: "uint8 \<times> game"
  let ?x = "of_nat (rnd (rcalls g) mod FIELD_WIDTH) :: uint8"
  let ?g1 = "g\<lparr>rcalls := Suc (rcalls g)\<rparr>"
  assume IH: "\<And>rnd g r. f rnd g = Some r \<Longrightarrow>
           (\<exists>k. rcalls g < k \<and> snd r = g\<lparr>rcalls := k\<rparr>)
           \<and> asteroid_at g (fst r) 15 = - 1 \<and> (\<exists>c<8. fst r = of_nat c)"
  assume body: "(let new_x = (of_nat (rnd (rcalls g) mod FIELD_WIDTH) :: uint8);
                     g1 = g\<lparr>rcalls := Suc (rcalls g)\<rparr>
                 in if asteroid_at g1 new_x 15 \<noteq> - 1 then f rnd g1 else Some (new_x, g1))
                = Some r"
  show "(\<exists>k. rcalls g < k \<and> snd r = g\<lparr>rcalls := k\<rparr>)
         \<and> asteroid_at g (fst r) 15 = - 1 \<and> (\<exists>c<8. fst r = of_nat c)"
  proof (cases "asteroid_at g ?x 15 \<noteq> - 1")
    case True
    with body have "f rnd ?g1 = Some r" by (simp add: Let_def)
    from IH [OF this] obtain k where
      k: "Suc (rcalls g) < k" "snd r = ?g1\<lparr>rcalls := k\<rparr>"
      and rest: "asteroid_at g (fst r) 15 = - 1" "\<exists>c<8. fst r = of_nat c"
      by auto
    from k have "rcalls g < k \<and> snd r = g\<lparr>rcalls := k\<rparr>" by simp
    with rest show ?thesis by blast
  next
    case False
    with body have r: "r = (?x, ?g1)" by (simp add: Let_def)
    have "rnd (rcalls g) mod FIELD_WIDTH < 8" by (simp add: FIELD_WIDTH_def)
    then have "\<exists>c<8. fst r = of_nat c" using r by auto
    moreover have "rcalls g < Suc (rcalls g) \<and> snd r = g\<lparr>rcalls := Suc (rcalls g)\<rparr>"
      using r by simp
    ultimately show ?thesis using False r by auto
  qed
qed


lemma regen_asteroid_unfold:
  assumes "free_column rnd g = Some (x, g1)"
  shows "regen_asteroid rnd g
      = Some (g1\<lparr>numAsteroids := numAsteroids g1 + 1,
                asteroids := (asteroids g1)
                  [nat (numAsteroids g1) := GAME_POSITION x 15]\<rparr>)"
  unfolding regen_asteroid_def assms by (simp add: Let_def)

lemma regen_asteroid_Some:
  assumes "regen_asteroid rnd g = Some g'"
  obtains c k where "c < 8" and "rcalls g < k"
    and "asteroid_at g (of_nat c) 15 = - 1"
    and "g' = g\<lparr>rcalls := k, numAsteroids := numAsteroids g + 1,
                  asteroids := (asteroids g)
                    [nat (numAsteroids g) := GAME_POSITION (of_nat c) 15]\<rparr>"
proof (cases "free_column rnd g")
  case None
  with assms show ?thesis by (simp add: regen_asteroid_def)
next
  case (Some r)
  from free_column_Some [of rnd g r, OF Some] obtain k c where
    f: "rcalls g < k" "snd r = g\<lparr>rcalls := k\<rparr>" "asteroid_at g (fst r) 15 = - 1"
       "c < 8" "fst r = of_nat c"
    by blast
  have "r = (of_nat c, g\<lparr>rcalls := k\<rparr>)" using f(2,5) by (cases r) simp
  with Some have "free_column rnd g = Some (of_nat c, g\<lparr>rcalls := k\<rparr>)" by simp
  from regen_asteroid_unfold [OF this] assms
  have g': "g' = g\<lparr>rcalls := k, numAsteroids := numAsteroids g + 1,
                asteroids := (asteroids g)
                  [nat (numAsteroids g) := GAME_POSITION (of_nat c) 15]\<rparr>"
    by simp
  have free: "asteroid_at g (of_nat c) 15 = - 1" using f(3,5) by simp
  show ?thesis by (rule that [OF f(4) f(1) free g'])
qed


section \<open>Moving the base\<close>

lemma base_ram_basePosition [simp]: "basePosition (base_ram x y g) = basePosition g"
  by (simp add: base_ram_def Let_def enable_basehit_sound_def)

lemma move_base_range:
  "0 \<le> basePosition g \<Longrightarrow> basePosition g \<le> 7 \<Longrightarrow>
   0 \<le> basePosition (snd (move_base d g)) \<and> basePosition (snd (move_base d g)) \<le> 7"
  by (simp add: move_base_def Let_def)

lemma move_base_seq_range:
  "0 \<le> basePosition g \<Longrightarrow> basePosition g \<le> 7 \<Longrightarrow>
   0 \<le> basePosition (move_base_seq ds g) \<and> basePosition (move_base_seq ds g) \<le> 7"
proof (induction ds arbitrary: g)
  case Nil
  then show ?case by simp
next
  case (Cons d ds)
  from move_base_range [OF Cons.prems, of d] Cons.IH show ?case by simp
qed

text \<open>
  C3. Whatever the sequence of \<open>move_base\<close> calls, a base centre that starts within
  0..7 stays within 0..7; and a request that would take the centre below 0 or above 7
  returns 0 and leaves every variable of the state as it was.
\<close>

theorem move_base_stays_in_field:
  assumes "0 \<le> basePosition g" and "basePosition g \<le> 7"
  shows "0 \<le> basePosition (move_base_seq ds g) \<and> basePosition (move_base_seq ds g) \<le> 7
         \<and> ((d = MOVE_LEFT \<and> basePosition g - 1 < 0 \<or> d = MOVE_RIGHT \<and> 7 < basePosition g + 1)
              \<longrightarrow> move_base d g = (0, g))"
proof -
  have "(d = MOVE_LEFT \<and> basePosition g - 1 < 0 \<or> d = MOVE_RIGHT \<and> 7 < basePosition g + 1)
              \<longrightarrow> move_base d g = (0, g)"
    using assms by (auto simp add: move_base_def)
  with move_base_seq_range [OF assms] show ?thesis by simp
qed

theorem move_base_stays_in_field_witness:
  "0 \<le> basePosition left_edge_state \<and> basePosition left_edge_state \<le> 7
   \<and> basePosition left_edge_state - 1 < 0
   \<and> 0 \<le> basePosition (move_base_seq [MOVE_LEFT, MOVE_RIGHT, MOVE_LEFT, MOVE_LEFT] left_edge_state)
   \<and> basePosition (move_base_seq [MOVE_LEFT, MOVE_RIGHT, MOVE_LEFT, MOVE_LEFT] left_edge_state) \<le> 7
   \<and> move_base MOVE_LEFT left_edge_state = (0, left_edge_state)"
proof -
  have h: "0 \<le> basePosition left_edge_state" "basePosition left_edge_state \<le> 7"
    "basePosition left_edge_state - 1 < 0"
    by (simp_all add: left_edge_state_def)
  from move_base_stays_in_field
    [OF h(1,2), of "[MOVE_LEFT, MOVE_RIGHT, MOVE_LEFT, MOVE_LEFT]" MOVE_LEFT] h
  show ?thesis by (simp del: move_base_seq.simps)
qed

section \<open>Timers\<close>

text \<open>
  C8. The comparison of the game loop is the elapsed time against
  \<open>500 - 1.8 * score\<close>, with no lower bound: the interval is positive exactly for
  the scores below 278.
\<close>

theorem asteroid_interval_not_floored:
  "asteroids_due current_time last_asteroid_time sc
     = (asteroid_interval sc \<le> real current_time - real last_asteroid_time)
   \<and> (0 < asteroid_interval sc) = (sc < 278)"
proof -
  have "(0 < asteroid_interval sc) = (sc < 278)"
  proof (cases "sc < 278")
    case True
    then have "sc \<le> 277" by simp
    then have "real sc \<le> real 277" by (simp only: of_nat_le_iff)
    then have "real sc * 1.8 < 500" by simp
    with True show ?thesis by (simp add: asteroid_interval_def)
  next
    case False
    then have "278 \<le> sc" by simp
    then have "real 278 \<le> real sc" by (simp only: of_nat_le_iff)
    then have "500 \<le> real sc * 1.8" by simp
    with False show ?thesis by (simp add: asteroid_interval_def)
  qed
  moreover have "asteroids_due current_time last_asteroid_time sc
     = (asteroid_interval sc \<le> real current_time - real last_asteroid_time)"
    by (auto simp add: asteroids_due_def asteroid_interval_def)
  ultimately show ?thesis by simp
qed

theorem asteroid_interval_counterexample:
  "asteroid_interval 1000 < 0 \<and> asteroids_due 0 0 1000"
  by (simp add: asteroid_interval_def asteroids_due_def)

text \<open>
  C9. \<open>enable_basehit_sound\<close> sets the alarm running at step 1 and leaves the time of
  the last step as it was: the next call of \<open>handle_basehit_sound\<close> plays the first
  tone exactly when the delay of step 1 has passed since that earlier time.
\<close>

theorem enable_basehit_sound_keeps_timer:
  "base_hit_sound (enable_basehit_sound g) = 1
   \<and> basehit_sequence (enable_basehit_sound g) = 1
   \<and> basehit_time (enable_basehit_sound g) = basehit_time g
   \<and> (basehit_sequence (handle_basehit_sound t1 t2 (enable_basehit_sound g)) = 2)
       = (real (basehit_time g) \<le> real t1 - basehit_delay 1)"
  by (simp add: enable_basehit_sound_def handle_basehit_sound_def Let_def)

theorem basehit_timer_reset_counterexample:
  "base_hit_sound alarm_state = 1
   \<and> basehit_time (enable_basehit_sound alarm_state) \<noteq> 1000
   \<and> basehit_sequence (handle_basehit_sound 1000 1000 (enable_basehit_sound alarm_state)) = 2"
proof -
  have "- 1 \<le> sin (5 / 4 :: real)" by (rule sin_ge_minus_one)
  then have "0 \<le> 700 + 200 * sin (5 / 4 :: real)" by linarith
  then have "0 \<le> 1000 - basehit_delay 1" by (simp add: basehit_delay_def)
  then show ?thesis
    by (simp add: enable_basehit_sound_def handle_basehit_sound_def Let_def alarm_state_def)
qed

section \<open>Positions\<close>

lemma nibble_mask: "(0x0F :: uint8) = mask 4"
  by (simp add: mask_eq_exp_minus_1)

lemma GET_Y_GAME_POSITION: "GET_Y_POSITION (GAME_POSITION x y) = y AND 0x0F"
  unfolding GET_Y_POSITION_def GAME_POSITION_def nibble_mask
  by (rule bit_eqI) (auto simp add: bit_simps)

lemma GET_X_GAME_POSITION: "GET_X_POSITION (GAME_POSITION x y) = x AND 0x0F"
  unfolding GET_X_POSITION_def GAME_POSITION_def nibble_mask
  by (rule bit_eqI) (auto simp add: bit_simps)

lemma GAME_POSITION_GET: "GAME_POSITION (GET_X_POSITION p) (GET_Y_POSITION p) = p"
  unfolding GET_X_POSITION_def GET_Y_POSITION_def GAME_POSITION_def nibble_mask
  by (rule bit_eqI) (auto simp add: bit_simps)

lemma cell_inj: "cell p = cell q \<Longrightarrow> p = q"
  by (metis GAME_POSITION_GET cell_def prod.inject)

lemma low_nibble_less: "(p :: uint8) AND mask 4 < 16"
  using and_mask_less' [of 4 p] by simp

lemma low_nibble_succ:
  assumes "(p :: uint8) AND mask 4 \<noteq> 15"
  shows "((p AND mask 4) + 1) AND mask 4 = (p AND mask 4) + 1"
proof -
  have "(p AND mask 4) + 1 < 2 ^ 4"
    using low_nibble_less [of p] assms by unat_arith
  then show ?thesis by (rule less_mask_eq)
qed

lemma GAME_POSITION_up:
  assumes "GET_Y_POSITION p \<noteq> 15"
  shows "GAME_POSITION (GET_X_POSITION p) (GET_Y_POSITION p + 1) = p + 1"
proof -
  let ?y = "p AND mask 4"
  have y: "(?y + 1) AND mask 4 = ?y + 1"
    using assms by (intro low_nibble_succ) (simp add: GET_Y_POSITION_def nibble_mask)
  have "push_bit 4 (drop_bit 4 p) OR ((?y + 1) AND mask 4)
          = push_bit 4 (drop_bit 4 p) + ((?y + 1) AND mask 4)"
    by (rule disjunctive_add [symmetric]) (auto simp add: bit_simps)
  also have "\<dots> = (push_bit 4 (drop_bit 4 p) + take_bit 4 p) + 1"
    by (simp add: y take_bit_eq_mask)
  also have "\<dots> = p + 1" by (simp only: bits_ident)
  finally show ?thesis
    by (simp add: GAME_POSITION_def GET_X_POSITION_def GET_Y_POSITION_def nibble_mask)
qed

lemma GAME_POSITION_row:
  "(GAME_POSITION x y = GAME_POSITION x' y') \<Longrightarrow> y AND 0x0F = y' AND 0x0F"
  by (metis GET_Y_GAME_POSITION)

lemma free_cell_Some:
  assumes "free_cell rnd g = Some r"
  shows "(\<exists>k. rcalls g < k \<and> snd (snd r) = g\<lparr>rcalls := k\<rparr>)
         \<and> asteroid_at g (fst r) (fst (snd r)) = - 1
         \<and> (\<exists>c<8. fst r = of_nat c)
         \<and> (\<exists>h. 3 \<le> h \<and> h < 16 \<and> fst (snd r) = of_nat h)"
proof (rule free_cell.raw_induct
    [where P = "\<lambda>rnd g r. (\<exists>k. rcalls g < k \<and> snd (snd r) = g\<lparr>rcalls := k\<rparr>)
         \<and> asteroid_at g (fst r) (fst (snd r)) = - 1
         \<and> (\<exists>c<8. fst r = of_nat c)
         \<and> (\<exists>h. 3 \<le> h \<and> h < 16 \<and> fst (snd r) = of_nat h)", OF _ assms])
  fix f :: "(nat \<Rightarrow> nat) \<Rightarrow> game \<Rightarrow> (uint8 \<times> uint8 \<times> game) option"
  fix rnd :: "nat \<Rightarrow> nat" and g :: game and r :: "uint8 \<times> uint8 \<times> game"
  let ?x = "of_nat (rnd (rcalls g) mod FIELD_WIDTH) :: uint8"
  let ?y = "of_nat (3 + rnd (Suc (rcalls g)) mod (FIELD_HEIGHT - 3)) :: uint8"
  let ?g1 = "g\<lparr>rcalls := rcalls g + 2\<rparr>"
  let ?Q = "\<lambda>g r. (\<exists>k. rcalls g < k \<and> snd (snd r) = g\<lparr>rcalls := k\<rparr>)
         \<and> asteroid_at g (fst r) (fst (snd r)) = - 1
         \<and> (\<exists>c<8. fst r = of_nat c)
         \<and> (\<exists>h. 3 \<le> h \<and> h < 16 \<and> fst (snd r) = (of_nat h :: uint8))"
  assume IH: "\<And>rnd g r. f rnd g = Some r \<Longrightarrow> ?Q g r"
  assume body: "(let x = (of_nat (rnd (rcalls g) mod FIELD_WIDTH) :: uint8);
                     y = (of_nat (3 + rnd (Suc (rcalls g)) mod (FIELD_HEIGHT - 3)) :: uint8);
                     g1 = g\<lparr>rcalls := rcalls g + 2\<rparr>
                 in if asteroid_at g1 x y \<noteq> - 1 then f rnd g1 else Some (x, y, g1))
                = Some r"
  show "?Q g r"
  proof (cases "asteroid_at g ?x ?y \<noteq> - 1")
    case True
    with body have "f rnd ?g1 = Some r" by (simp add: Let_def)
    from IH [OF this] obtain k where
      k: "rcalls g + 2 < k" "snd (snd r) = ?g1\<lparr>rcalls := k\<rparr>"
      and rest: "asteroid_at g (fst r) (fst (snd r)) = - 1" "\<exists>c<8. fst r = of_nat c"
        "\<exists>h. 3 \<le> h \<and> h < 16 \<and> fst (snd r) = (of_nat h :: uint8)"
      by auto
    from k have "rcalls g < k \<and> snd (snd r) = g\<lparr>rcalls := k\<rparr>" by simp
    then have "\<exists>k. rcalls g < k \<and> snd (snd r) = g\<lparr>rcalls := k\<rparr>" ..
    with rest show ?thesis by simp
  next
    case False
    with body have r: "r = (?x, ?y, ?g1)" by (simp add: Let_def)
    have "rnd (rcalls g) mod FIELD_WIDTH < 8" by (simp add: FIELD_WIDTH_def)
    then have c: "\<exists>c<8. fst r = of_nat c" using r by auto
    have "3 \<le> 3 + rnd (Suc (rcalls g)) mod (FIELD_HEIGHT - 3)
          \<and> 3 + rnd (Suc (rcalls g)) mod (FIELD_HEIGHT - 3) < 16
          \<and> fst (snd r) = of_nat (3 + rnd (Suc (rcalls g)) mod (FIELD_HEIGHT - 3))"
      using r by (simp add: FIELD_HEIGHT_def)
    then have h: "\<exists>h. 3 \<le> h \<and> h < 16 \<and> fst (snd r) = (of_nat h :: uint8)" by (rule exI)
    have "rcalls g < rcalls g + 2 \<and> snd (snd r) = g\<lparr>rcalls := rcalls g + 2\<rparr>"
      using r by simp
    then have "\<exists>k. rcalls g < k \<and> snd (snd r) = g\<lparr>rcalls := k\<rparr>" ..
    with c h False r show ?thesis by simp
  qed
qed

lemma free_column_None:
  assumes "\<forall>c<8. asteroid_at g (of_nat c) 15 \<noteq> - 1"
  shows "free_column rnd g = None"
proof (cases "free_column rnd g")
  case None
  then show ?thesis .
next
  case (Some r)
  from free_column_Some [of rnd g r, OF Some] assms show ?thesis by auto
qed

lemma top_row_full_iff: "top_row_full g = (\<forall>c<8. asteroid_at g (of_nat c) 15 \<noteq> - 1)"
  by (auto simp add: top_row_full_def list_all_iff)

lemma GAME_POSITION_rows_differ: "GAME_POSITION x 0 \<noteq> GAME_POSITION c 15"
proof
  assume "GAME_POSITION x 0 = GAME_POSITION c 15"
  then have "GET_Y_POSITION (GAME_POSITION x 0) = GET_Y_POSITION (GAME_POSITION c 15)"
    by simp
  then show False by (simp add: GET_Y_GAME_POSITION)
qed

lemma GAME_POSITION_low_nibble: "GAME_POSITION x (of_int (- 1)) = GAME_POSITION x 15"
  by (simp add: GAME_POSITION_def)

text \<open>
  After the asteroid at \<open>(x, 0)\<close> is removed and the count is put back up, as the
  respawn branch does before its loop, a cell of row 15 that held an asteroid holds one.
\<close>

lemma respawn_row_still_held:
  assumes x: "asteroid_at g x 0 \<noteq> - 1" and c: "asteroid_at g c 15 \<noteq> - 1"
  shows "asteroid_at
           ((remove_asteroid (asteroid_at g x 0) g)
              \<lparr>numAsteroids := numAsteroids (remove_asteroid (asteroid_at g x 0) g) + 1\<rparr>)
           c 15 \<noteq> - 1"
proof -
  let ?i = "asteroid_at g x 0" and ?j = "asteroid_at g c 15"
  let ?g1 = "remove_asteroid ?i g"
  from asteroid_at_found [OF x] have i: "0 \<le> ?i" "?i < numAsteroids g"
    "asteroids g ! nat ?i = GAME_POSITION x 0" by simp_all
  from asteroid_at_found [OF c] have j: "0 \<le> ?j" "?j < numAsteroids g"
    "asteroids g ! nat ?j = GAME_POSITION c 15" by simp_all
  have ne: "nat ?i \<noteq> nat ?j" using i(3) j(3) GAME_POSITION_rows_differ [of x c] by auto
  have n: "numAsteroids ?g1 + 1 = numAsteroids g"
    using i by (simp add: remove_asteroid_count)
  have "asteroids ?g1 ! nat ?j = GAME_POSITION c 15"
    using i j ne by (simp add: remove_asteroid_def Let_def)
  moreover have "int (nat ?j) < numAsteroids g" using j by simp
  ultimately have "\<not> (\<forall>k. 0 \<le> k \<and> int k < numAsteroids g
                        \<longrightarrow> asteroids ?g1 ! k \<noteq> GAME_POSITION c 15)"
    by blast
  then have "position_at (numAsteroids g) (asteroids ?g1) (GAME_POSITION c 15) 0 \<noteq> - 1"
    by (simp only: position_at_none) simp
  then have "position_at (numAsteroids ?g1 + 1) (asteroids ?g1) (GAME_POSITION c 15) 0 \<noteq> - 1"
    unfolding n .
  then show ?thesis
    by (simp add: asteroid_at_def)
qed

lemma projectile_at_remove_asteroid [simp]:
  "projectile_at (remove_asteroid i g) x y = projectile_at g x y"
  by (simp add: projectile_at_def)

lemma projectile_at_row_below_0: "projectile_at g x (- 1) = projectile_at g x 15"
  by (simp add: projectile_at_def GAME_POSITION_def)

lemma respawn_never_returns:
  assumes full: "\<forall>c<8. asteroid_at g (of_nat c) 15 \<noteq> - 1"
    and a: "asteroid_at g (of_int x) 0 \<noteq> - 1"
    and p0: "projectile_at g (of_int x) 0 = - 1"
    and p15: "projectile_at g (of_int x) 15 = - 1"
  shows "advance_cell rnd x 0 g = None"
proof -
  let ?g1 = "remove_asteroid (asteroid_at g (of_int x) 0) g"
  let ?g2 = "?g1\<lparr>numAsteroids := numAsteroids ?g1 + 1\<rparr>"
  have "\<forall>c<8. asteroid_at ?g2 (of_nat c) 15 \<noteq> - 1"
    using full a by (simp add: respawn_row_still_held)
  then have none: "free_column rnd ?g2 = None" by (rule free_column_None)
  have "advance_cell rnd x 0 g
          = Option.bind (free_column rnd ?g2) (\<lambda>(new_x, g3).
                Some (g3\<lparr>asteroids := (asteroids g3)
                           [nat (numAsteroids g3 - 1) := GAME_POSITION new_x 15]\<rparr>))"
    using a p0 p15
    by (simp add: advance_cell_def Let_def projectile_at_row_below_0)
  with none show ?thesis by simp
qed

text \<open>
  C10. When each of the 8 cells of row 15 holds an asteroid, \<open>regen_asteroid\<close> does
  not return, and neither does the step of \<open>advance_asteroids\<close> at an asteroid of row 0
  that no projectile hits (its respawn loop runs forever). Conversely, whatever the
  random draws are, the column that the retry loop leaves with is one whose cell of
  row 15 held no asteroid, and the cell that the loop of \<open>initialise_game\<close> leaves with
  held none either.
\<close>

theorem retry_loops_need_a_free_cell:
  "(top_row_full g \<longrightarrow>
      regen_asteroid rnd g = None
      \<and> (asteroid_at g (of_int x) 0 \<noteq> - 1 \<and> projectile_at g (of_int x) 0 = - 1
           \<and> projectile_at g (of_int x) 15 = - 1 \<longrightarrow> advance_cell rnd x 0 g = None))
   \<and> (free_column rnd g = Some (c, g1) \<longrightarrow> asteroid_at g c 15 = - 1)
   \<and> (free_cell rnd g = Some (cx, cy, g2) \<longrightarrow> asteroid_at g cx cy = - 1)"
proof (intro conjI impI)
  assume "top_row_full g"
  then have "\<forall>c<8. asteroid_at g (of_nat c) 15 \<noteq> - 1" by (simp only: top_row_full_iff)
  then have "free_column rnd g = None" by (rule free_column_None)
  then show "regen_asteroid rnd g = None" by (simp add: regen_asteroid_def)
next
  assume "top_row_full g"
    and "asteroid_at g (of_int x) 0 \<noteq> - 1 \<and> projectile_at g (of_int x) 0 = - 1
           \<and> projectile_at g (of_int x) 15 = - 1"
  then show "advance_cell rnd x 0 g = None"
    by (simp only: top_row_full_iff) (rule respawn_never_returns, simp_all)
next
  assume "free_column rnd g = Some (c, g1)"
  from free_column_Some [of rnd g "(c, g1)", OF this] show "asteroid_at g c 15 = - 1" by simp
next
  assume "free_cell rnd g = Some (cx, cy, g2)"
  from free_cell_Some [of rnd g "(cx, cy, g2)", OF this] show "asteroid_at g cx cy = - 1"
    by simp
qed

lemma free_column_example:
  "free_column (\<lambda>k. k) left_edge_state = Some (7, left_edge_state\<lparr>rcalls := 8\<rparr>)"
  by (subst free_column.simps) code_simp

lemma free_cell_example:
  "free_cell (\<lambda>k. k) left_edge_state = Some (7, 11, left_edge_state\<lparr>rcalls := 9\<rparr>)"
  by (subst free_cell.simps) code_simp

theorem retry_loops_need_a_free_cell_witness:
  "top_row_full full_row_state
   \<and> asteroid_at full_row_state 3 0 \<noteq> - 1
   \<and> projectile_at full_row_state 3 0 = - 1 \<and> projectile_at full_row_state 3 15 = - 1
   \<and> regen_asteroid (\<lambda>k. k) full_row_state = None
   \<and> advance_cell (\<lambda>k. k) 3 0 full_row_state = None
   \<and> free_column (\<lambda>k. k) left_edge_state = Some (7, left_edge_state\<lparr>rcalls := 8\<rparr>)
   \<and> asteroid_at left_edge_state 7 15 = - 1
   \<and> free_cell (\<lambda>k. k) left_edge_state = Some (7, 11, left_edge_state\<lparr>rcalls := 9\<rparr>)
   \<and> asteroid_at left_edge_state 7 11 = - 1"
proof -
  have h: "top_row_full full_row_state" "asteroid_at full_row_state 3 0 \<noteq> - 1"
    "projectile_at full_row_state 3 0 = - 1" "projectile_at full_row_state 3 15 = - 1"
    by code_simp+
  from retry_loops_need_a_free_cell [of full_row_state "\<lambda>k. k" 3] h
  have 1: "regen_asteroid (\<lambda>k. k) full_row_state = None"
    "advance_cell (\<lambda>k. k) 3 0 full_row_state = None"
    by simp_all
  from retry_loops_need_a_free_cell
    [of left_edge_state "\<lambda>k. k" 0 7 "left_edge_state\<lparr>rcalls := 8\<rparr>"
        7 11 "left_edge_state\<lparr>rcalls := 9\<rparr>"]
    free_column_example free_cell_example
  have 2: "asteroid_at left_edge_state 7 15 = - 1" "asteroid_at left_edge_state 7 11 = - 1"
    by simp_all
  from h 1 2 free_column_example free_cell_example show ?thesis by simp
qed

section \<open>Starting a game\<close>

lemma small_word_of_nat:
  assumes "h < 16"
  shows "(of_nat h :: uint8) AND 0x0F = of_nat h" and "unat (of_nat h :: uint8) = h"
proof -
  have u: "unat (of_nat h :: uint8) = h" using assms by (simp add: unat_of_nat)
  then show "unat (of_nat h :: uint8) = h" .
  have "(of_nat h :: uint8) < 2 ^ 4"
    using u assms by (simp add: word_less_nat_alt)
  then show "(of_nat h :: uint8) AND 0x0F = of_nat h"
    unfolding nibble_mask by (rule less_mask_eq)
qed

lemma fresh_position_in_field:
  assumes "c < 8" and "3 \<le> h" and "h < 16"
  shows "GET_X_POSITION (GAME_POSITION (of_nat c) (of_nat h)) < 8
         \<and> 3 \<le> GET_Y_POSITION (GAME_POSITION (of_nat c) (of_nat h))"
proof -
  have "c < 16" using assms by simp
  then have x: "GET_X_POSITION (GAME_POSITION (of_nat c) (of_nat h)) = of_nat c"
    by (simp add: GET_X_GAME_POSITION small_word_of_nat)
  have y: "GET_Y_POSITION (GAME_POSITION (of_nat c) (of_nat h)) = of_nat h"
    using assms by (simp add: GET_Y_GAME_POSITION small_word_of_nat)
  have "unat (of_nat c :: uint8) = c" using \<open>c < 16\<close> by (rule small_word_of_nat)
  moreover have "unat (of_nat h :: uint8) = h" using assms(3) by (rule small_word_of_nat)
  ultimately show ?thesis
    using assms x y by (simp add: word_less_nat_alt word_le_nat_alt)
qed

lemma initialise_loop_Some:
  assumes "initialise_loop rnd mx i g = Some g'"
    and "numAsteroids g = int i" and "mx = MAX_ASTEROIDS g"
  shows "numAsteroids g' = max mx (int i) \<and> MAX_ASTEROIDS g' = mx
         \<and> basePosition g' = basePosition g \<and> lives g' = lives g
         \<and> numProjectiles g' = numProjectiles g \<and> projectiles g' = projectiles g
         \<and> score g' = score g
         \<and> (\<forall>p\<in>set (live_asteroids g'). p \<in> set (live_asteroids g)
               \<or> (GET_X_POSITION p < 8 \<and> 3 \<le> GET_Y_POSITION p))
         \<and> (distinct (live_asteroids g) \<longrightarrow> distinct (live_asteroids g'))"
  using assms
proof (induction rnd mx i g arbitrary: g' rule: initialise_loop.induct)
  case (1 rnd mx i g)
  show ?case
  proof (cases "int i < mx")
    case False
    with "1.prems"(1) have "g' = g" by (simp add: initialise_loop.simps [of rnd mx i g])
    with False "1.prems"(2,3) show ?thesis by simp
  next
    case True
    from "1.prems"(1) True obtain r where r: "free_cell rnd g = Some r"
      by (cases "free_cell rnd g") (simp_all add: initialise_loop.simps [of rnd mx i g])
    obtain x y g1 where r': "r = (x, y, g1)"
      by (cases r) auto
    from free_cell_Some [of rnd g r, OF r] r' obtain k c h where
      f: "g1 = g\<lparr>rcalls := k\<rparr>" "asteroid_at g x y = - 1" "c < 8" "x = of_nat c"
         "3 \<le> h" "h < 16" "y = of_nat h"
      by auto
    let ?p = "GAME_POSITION x y"
    let ?g2 = "g1\<lparr>asteroids := (asteroids g1)[i := ?p], numAsteroids := numAsteroids g1 + 1\<rparr>"
    have loop: "initialise_loop rnd mx (Suc i) ?g2 = Some g'"
      using "1.prems"(1) True r r' by (simp add: initialise_loop.simps [of rnd mx i g])
    have n2: "numAsteroids ?g2 = int (Suc i)" using f(1) "1.prems"(2) by simp
    have mx2: "mx = MAX_ASTEROIDS ?g2" using f(1) "1.prems"(3) by (simp add: MAX_ASTEROIDS_def)
    have IH: "numAsteroids g' = max mx (int (Suc i)) \<and> MAX_ASTEROIDS g' = mx
         \<and> basePosition g' = basePosition ?g2 \<and> lives g' = lives ?g2
         \<and> numProjectiles g' = numProjectiles ?g2 \<and> projectiles g' = projectiles ?g2
         \<and> score g' = score ?g2
         \<and> (\<forall>p\<in>set (live_asteroids g'). p \<in> set (live_asteroids ?g2)
               \<or> (GET_X_POSITION p < 8 \<and> 3 \<le> GET_Y_POSITION p))
         \<and> (distinct (live_asteroids ?g2) \<longrightarrow> distinct (live_asteroids g'))"
      by (rule "1.IH" [OF True r r' [symmetric] refl loop n2 mx2])
    have bound: "0 \<le> numAsteroids g" "numAsteroids g < MAX_ASTEROIDS g"
      using True "1.prems"(2,3) by simp_all
    have live2: "live_asteroids ?g2 = live_asteroids g @ [?p]"
      using live_asteroids_append [OF bound, of ?p] f(1) "1.prems"(2)
      by (simp add: live_asteroids_def)
    have fresh: "?p \<notin> set (live_asteroids g)"
      using f(2) bound by (simp add: asteroid_at_none)
    have infield: "GET_X_POSITION ?p < 8 \<and> 3 \<le> GET_Y_POSITION ?p"
      using fresh_position_in_field [OF f(3,5,6)] f(4,7) by simp
    have "\<forall>p\<in>set (live_asteroids g'). p \<in> set (live_asteroids g)
               \<or> (GET_X_POSITION p < 8 \<and> 3 \<le> GET_Y_POSITION p)"
      using IH live2 infield by auto
    moreover have "distinct (live_asteroids g) \<longrightarrow> distinct (live_asteroids g')"
      using IH live2 fresh by simp
    moreover have "max mx (int (Suc i)) = max mx (int i)" using True by simp
    ultimately show ?thesis using IH f(1) by simp
  qed
qed

lemma initialise_game_Some:
  assumes "initialise_game rnd g = Some g'"
  shows "lives g' = 4 \<and> basePosition g' = 3 \<and> numProjectiles g' = 0
         \<and> score g' = score g
         \<and> numAsteroids g' = MAX_ASTEROIDS g' \<and> MAX_ASTEROIDS g' = MAX_ASTEROIDS g
         \<and> (\<forall>p\<in>set (live_asteroids g'). GET_X_POSITION p < 8 \<and> 3 \<le> GET_Y_POSITION p)
         \<and> distinct (live_asteroids g')"
proof -
  let ?g0 = "g\<lparr>basePosition := 3, numProjectiles := 0, numAsteroids := 0, lives := 4\<rparr>"
  have loop: "initialise_loop rnd (MAX_ASTEROIDS g) 0 ?g0 = Some g'"
    using assms by (simp add: initialise_game_def)
  have n0: "numAsteroids ?g0 = int 0" by simp
  have mx: "MAX_ASTEROIDS g = MAX_ASTEROIDS ?g0" by (simp add: MAX_ASTEROIDS_def)
  have empty: "live_asteroids ?g0 = []" by (simp add: live_asteroids_def)
  have "0 \<le> MAX_ASTEROIDS g" by (simp add: MAX_ASTEROIDS_def)
  with initialise_loop_Some [OF loop n0 mx] empty show ?thesis by simp
qed



section \<open>Regeneration and firing\<close>


lemma regen_asteroid_effect:
  assumes "regen_asteroid rnd g = Some g'"
    and "0 \<le> numAsteroids g" and "numAsteroids g < MAX_ASTEROIDS g"
  obtains c where "c < 8"
    and "GAME_POSITION (of_nat c) 15 \<notin> set (live_asteroids g)"
    and "live_asteroids g' = live_asteroids g @ [GAME_POSITION (of_nat c) 15]"
    and "numAsteroids g' = numAsteroids g + 1"
    and "MAX_ASTEROIDS g' = MAX_ASTEROIDS g"
    and "basePosition g' = basePosition g \<and> numProjectiles g' = numProjectiles g
         \<and> projectiles g' = projectiles g \<and> lives g' = lives g \<and> score g' = score g
         \<and> base_hit_sound g' = base_hit_sound g
         \<and> basehit_sequence g' = basehit_sequence g \<and> basehit_time g' = basehit_time g"
proof -
  from regen_asteroid_Some [OF assms(1)] obtain c k where
    c: "c < 8" and free: "asteroid_at g (of_nat c) 15 = - 1"
    and g': "g' = g\<lparr>rcalls := k, numAsteroids := numAsteroids g + 1,
                  asteroids := (asteroids g)
                    [nat (numAsteroids g) := GAME_POSITION (of_nat c) 15]\<rparr>"
    by blast
  have 1: "GAME_POSITION (of_nat c) 15 \<notin> set (live_asteroids g)"
    using free assms(3) by (simp add: asteroid_at_none)
  have 2: "live_asteroids g' = live_asteroids g @ [GAME_POSITION (of_nat c) 15]"
    using live_asteroids_append [OF assms(2,3)] g' by (simp add: live_asteroids_def)
  have 3: "numAsteroids g' = numAsteroids g + 1" using g' by simp
  have 4: "MAX_ASTEROIDS g' = MAX_ASTEROIDS g" using g' by (simp add: MAX_ASTEROIDS_def)
  have 5: "basePosition g' = basePosition g \<and> numProjectiles g' = numProjectiles g
         \<and> projectiles g' = projectiles g \<and> lives g' = lives g \<and> score g' = score g
         \<and> base_hit_sound g' = base_hit_sound g
         \<and> basehit_sequence g' = basehit_sequence g \<and> basehit_time g' = basehit_time g"
    using g' by simp
  show ?thesis by (rule that [OF c 1 2 3 4 5])
qed




section \<open>The projectile loop\<close>

text \<open>
  Partial correctness of the loop: a property that holds at the start and that each of
  the three kinds of round keeps holds when the loop returns, at an index that is no
  longer below the count.
\<close>

lemma advance_projectiles_loop_invariant:
  assumes run: "advance_projectiles_loop rnd i g = Some g'"
    and init: "I i g"
    and top: "\<And>i g. I i g \<Longrightarrow> int i < numProjectiles g \<Longrightarrow>
                GET_Y_POSITION (projectiles g ! i) + 1 = 16 \<Longrightarrow>
                I i (remove_projectile (int i) g)"
    and hit: "\<And>i g g2. I i g \<Longrightarrow> int i < numProjectiles g \<Longrightarrow>
                GET_Y_POSITION (projectiles g ! i) + 1 \<noteq> 16 \<Longrightarrow>
                asteroid_at g (GET_X_POSITION (projectiles g ! i))
                  (GET_Y_POSITION (projectiles g ! i) + 1) \<noteq> - 1 \<Longrightarrow>
                regen_asteroid rnd (add_to_score 1
                  (remove_asteroid
                     (asteroid_at (remove_projectile (int i) g)
                        (GET_X_POSITION (projectiles g ! i))
                        (GET_Y_POSITION (projectiles g ! i) + 1))
                     (remove_projectile (int i) g))) = Some g2 \<Longrightarrow>
                I i g2"
    and move: "\<And>i g. I i g \<Longrightarrow> int i < numProjectiles g \<Longrightarrow>
                GET_Y_POSITION (projectiles g ! i) + 1 \<noteq> 16 \<Longrightarrow>
                asteroid_at g (GET_X_POSITION (projectiles g ! i))
                  (GET_Y_POSITION (projectiles g ! i) + 1) = - 1 \<Longrightarrow>
                I (Suc i) (g\<lparr>projectiles := (projectiles g)
                   [i := GAME_POSITION (GET_X_POSITION (projectiles g ! i))
                           (GET_Y_POSITION (projectiles g ! i) + 1)]\<rparr>)"
  shows "\<exists>k. I k g' \<and> \<not> int k < numProjectiles g'"
proof -
  have "rnd = rnd \<longrightarrow> I i g \<longrightarrow> (\<exists>k. I k g' \<and> \<not> int k < numProjectiles g')"
  proof (rule advance_projectiles_loop.raw_induct
      [where P = "\<lambda>r i g g'. r = rnd \<longrightarrow> I i g
                    \<longrightarrow> (\<exists>k. I k g' \<and> \<not> int k < numProjectiles g')", OF _ run])
    fix f :: "(nat \<Rightarrow> nat) \<Rightarrow> nat \<Rightarrow> game \<Rightarrow> game option"
    fix r :: "nat \<Rightarrow> nat" and i :: nat and g g' :: game
    let ?x = "GET_X_POSITION (projectiles g ! i)"
    let ?y = "GET_Y_POSITION (projectiles g ! i) + 1"
    let ?g1 = "remove_projectile (int i) g"
    let ?g2 = "remove_asteroid (asteroid_at ?g1 ?x ?y) ?g1"
    assume IH: "\<And>r i g g'. f r i g = Some g' \<Longrightarrow>
                  r = rnd \<longrightarrow> I i g \<longrightarrow> (\<exists>k. I k g' \<and> \<not> int k < numProjectiles g')"
    assume body: "(if int i < numProjectiles g then
        (let x = GET_X_POSITION (projectiles g ! i);
             y = GET_Y_POSITION (projectiles g ! i) + 1
         in if y = of_nat FIELD_HEIGHT then
              f r i (remove_projectile (int i) g)
            else if asteroid_at g x y \<noteq> - 1 then
              (let g1 = remove_projectile (int i) g;
                   g2 = remove_asteroid (asteroid_at g1 x y) g1
               in Option.bind (regen_asteroid r (add_to_score 1 g2)) (f r i))
            else
              f r (Suc i) (g\<lparr>projectiles := (projectiles g)[i := GAME_POSITION x y]\<rparr>))
      else Some g) = Some g'"
    show "r = rnd \<longrightarrow> I i g \<longrightarrow> (\<exists>k. I k g' \<and> \<not> int k < numProjectiles g')"
    proof (intro impI)
      assume r: "r = rnd" and I: "I i g"
      show "\<exists>k. I k g' \<and> \<not> int k < numProjectiles g'"
      proof (cases "int i < numProjectiles g")
        case False
        with body have "g' = g" by simp
        with False I show ?thesis by blast
      next
        case lt: True
        show ?thesis
        proof (cases "?y = 16")
          case True
          with body lt have "f r i ?g1 = Some g'" by (simp add: Let_def FIELD_HEIGHT_def)
          from IH [OF this] r top [OF I lt True] show ?thesis by simp
        next
          case ny: False
          show ?thesis
          proof (cases "asteroid_at g ?x ?y \<noteq> - 1")
            case True
            with body lt ny
            have b: "Option.bind (regen_asteroid r (add_to_score 1 ?g2)) (f r i) = Some g'"
              by (simp add: Let_def FIELD_HEIGHT_def)
            then obtain g3 where g3: "regen_asteroid r (add_to_score 1 ?g2) = Some g3"
              and rest: "f r i g3 = Some g'"
              by (cases "regen_asteroid r (add_to_score 1 ?g2)") simp_all
            from hit [OF I lt ny True] g3 r have "I i g3" by simp
            with IH [OF rest] r show ?thesis by simp
          next
            case False
            then have free: "asteroid_at g ?x ?y = - 1" by simp
            with body lt ny
            have "f r (Suc i) (g\<lparr>projectiles := (projectiles g)[i := GAME_POSITION ?x ?y]\<rparr>)
                    = Some g'"
              by (simp add: Let_def FIELD_HEIGHT_def)
            from IH [OF this] r move [OF I lt ny free] show ?thesis by simp
          qed
        qed
      qed
    qed
  qed
  with init show ?thesis by simp
qed

lemma asteroid_at_cong:
  "numAsteroids g' = numAsteroids g \<Longrightarrow> asteroids g' = asteroids g \<Longrightarrow>
   asteroid_at g' x y = asteroid_at g x y"
  by (simp add: asteroid_at_def)

lemma row_above_top: "(y + 1 = (16 :: uint8)) = (y = 15)"
proof -
  have "(16 :: uint8) = 15 + 1" by simp
  then show ?thesis by (simp only: add_right_cancel)
qed

lemma live_projectiles_nth:
  "int i < numProjectiles g \<Longrightarrow> live_projectiles g ! i = projectiles g ! i"
  by (simp add: live_projectiles_def)

lemma live_projectiles_length:
  "0 \<le> numProjectiles g \<Longrightarrow> numProjectiles g \<le> MAX_PROJECTILES g \<Longrightarrow>
   int (length (live_projectiles g)) = numProjectiles g"
  by (simp add: live_projectiles_def MAX_PROJECTILES_def)

lemma live_projectiles_move:
  "live_projectiles (g\<lparr>projectiles := (projectiles g)[i := p]\<rparr>)
     = (live_projectiles g)[i := p]"
  by (simp add: live_projectiles_def take_update_swap)

text \<open>What the round of a hit does to the counts, the score and the projectiles.\<close>

lemma hit_round_effect:
  assumes lt: "int i < numProjectiles g" and le: "numProjectiles g \<le> MAX_PROJECTILES g"
    and ast: "asteroid_at g x y \<noteq> - 1"
    and regen: "regen_asteroid rnd (add_to_score 1
                  (remove_asteroid (asteroid_at (remove_projectile (int i) g) x y)
                     (remove_projectile (int i) g))) = Some g2"
  shows "numProjectiles g2 = numProjectiles g - 1
         \<and> MAX_PROJECTILES g2 = MAX_PROJECTILES g
         \<and> live_projectiles g2 = take i (live_projectiles g) @ drop (Suc i) (live_projectiles g)
         \<and> score g2 = score g + 1 \<and> numAsteroids g2 = numAsteroids g
         \<and> MAX_ASTEROIDS g2 = MAX_ASTEROIDS g
         \<and> lives g2 = lives g \<and> basePosition g2 = basePosition g"
proof -
  let ?g1 = "remove_projectile (int i) g"
  let ?j = "asteroid_at ?g1 x y"
  let ?g3 = "add_to_score 1 (remove_asteroid ?j ?g1)"
  have j: "?j = asteroid_at g x y" by (rule asteroid_at_cong) simp_all
  from asteroid_at_found [OF ast] j have jr: "0 \<le> ?j" "?j < numAsteroids ?g1" by simp_all
  have n1: "numProjectiles ?g1 = numProjectiles g - 1"
    using lt by (simp add: remove_projectile_count)
  have live1: "live_projectiles ?g1
                 = take i (live_projectiles g) @ drop (Suc i) (live_projectiles g)"
    using remove_projectile_live [of "int i" g] lt le by simp
  from regen_asteroid_Some [OF regen] obtain c k where
    g2: "g2 = ?g3\<lparr>rcalls := k, numAsteroids := numAsteroids ?g3 + 1,
                  asteroids := (asteroids ?g3)
                    [nat (numAsteroids ?g3) := GAME_POSITION (of_nat c) 15]\<rparr>"
    by blast
  have a3: "numAsteroids ?g3 = numAsteroids g - 1"
    using jr by (simp add: add_to_score_def remove_asteroid_count)
  have "numProjectiles g2 = numProjectiles g - 1"
    using g2 n1 by (simp add: add_to_score_def)
  moreover have "projectiles g2 = projectiles ?g1" using g2 by (simp add: add_to_score_def)
  then have "MAX_PROJECTILES g2 = MAX_PROJECTILES g"
    by (simp add: MAX_PROJECTILES_def)
  moreover have "live_projectiles g2 = live_projectiles ?g1"
    using g2 by (simp add: live_projectiles_def add_to_score_def)
  moreover have "score g2 = score g + 1" using g2 by (simp add: add_to_score_def)
  moreover have "numAsteroids g2 = numAsteroids g" using g2 a3 by simp
  moreover have "MAX_ASTEROIDS g2 = MAX_ASTEROIDS g"
    using g2 by (simp add: MAX_ASTEROIDS_def add_to_score_def)
  moreover have "lives g2 = lives g \<and> basePosition g2 = basePosition g"
    using g2 by (simp add: add_to_score_def)
  ultimately show ?thesis using live1 by simp
qed






section \<open>The asteroid loops\<close>

text \<open>The branches of the loop body, one case for each.\<close>

lemma advance_cell_cases [consumes 1, case_names none hit_here hit_below base down respawn]:
  assumes "advance_cell rnd x y g = Some g'"
  obtains
    "asteroid_at g (of_int x) (of_int y) = - 1" and "g' = g"
  | "asteroid_at g (of_int x) (of_int y) \<noteq> - 1"
    and "projectile_at g (of_int x) (of_int y) \<noteq> - 1"
    and "regen_asteroid rnd (add_to_score 1
           (remove_projectile (projectile_at g (of_int x) (of_int y))
              (remove_asteroid (asteroid_at g (of_int x) (of_int y)) g))) = Some g'"
  | "asteroid_at g (of_int x) (of_int y) \<noteq> - 1"
    and "projectile_at g (of_int x) (of_int y) = - 1"
    and "projectile_at g (of_int x) (of_int (y - 1)) \<noteq> - 1"
    and "regen_asteroid rnd (add_to_score 1
           (remove_projectile (projectile_at g (of_int x) (of_int (y - 1)))
              (remove_asteroid (asteroid_at g (of_int x) (of_int y)) g))) = Some g'"
  | "asteroid_at g (of_int x) (of_int y) \<noteq> - 1"
    and "projectile_at g (of_int x) (of_int y) = - 1"
    and "projectile_at g (of_int x) (of_int (y - 1)) = - 1"
    and "(basePosition g = x \<and> y = 2) \<or> (basePosition g = x + 1 \<and> y = 1)
           \<or> (basePosition g = x - 1 \<and> y = 1)"
    and "regen_asteroid rnd (enable_basehit_sound
           ((remove_asteroid (asteroid_at g (of_int x) (of_int y)) g)
              \<lparr>lives := lives g - 1\<rparr>)) = Some g'"
  | "asteroid_at g (of_int x) (of_int y) \<noteq> - 1"
    and "projectile_at g (of_int x) (of_int y) = - 1"
    and "projectile_at g (of_int x) (of_int (y - 1)) = - 1"
    and "\<not> ((basePosition g = x \<and> y = 2) \<or> (basePosition g = x + 1 \<and> y = 1)
           \<or> (basePosition g = x - 1 \<and> y = 1))"
    and "y \<noteq> 0"
    and "g' = (remove_asteroid (asteroid_at g (of_int x) (of_int y)) g)
           \<lparr>numAsteroids :=
              numAsteroids (remove_asteroid (asteroid_at g (of_int x) (of_int y)) g) + 1,
            asteroids :=
              (asteroids (remove_asteroid (asteroid_at g (of_int x) (of_int y)) g))
              [nat (numAsteroids (remove_asteroid (asteroid_at g (of_int x) (of_int y)) g))
                 := GAME_POSITION (of_int x) (of_int (y - 1))]\<rparr>"
  | new_x k where "asteroid_at g (of_int x) (of_int y) \<noteq> - 1"
    and "projectile_at g (of_int x) (of_int y) = - 1"
    and "projectile_at g (of_int x) (of_int (y - 1)) = - 1"
    and "y = 0"
    and "free_column rnd
           ((remove_asteroid (asteroid_at g (of_int x) (of_int y)) g)
              \<lparr>numAsteroids :=
                 numAsteroids (remove_asteroid (asteroid_at g (of_int x) (of_int y)) g) + 1\<rparr>)
         = Some (new_x,
             (remove_asteroid (asteroid_at g (of_int x) (of_int y)) g)
               \<lparr>numAsteroids :=
                  numAsteroids (remove_asteroid (asteroid_at g (of_int x) (of_int y)) g) + 1,
                rcalls := k\<rparr>)"
    and "g' = (remove_asteroid (asteroid_at g (of_int x) (of_int y)) g)
           \<lparr>numAsteroids :=
              numAsteroids (remove_asteroid (asteroid_at g (of_int x) (of_int y)) g) + 1,
            rcalls := k,
            asteroids :=
              (asteroids (remove_asteroid (asteroid_at g (of_int x) (of_int y)) g))
              [nat (numAsteroids (remove_asteroid (asteroid_at g (of_int x) (of_int y)) g))
                 := GAME_POSITION new_x 15]\<rparr>"
proof -
  let ?a = "asteroid_at g (of_int x) (of_int y)"
  let ?g1 = "remove_asteroid ?a g"
  let ?g2 = "?g1\<lparr>numAsteroids := numAsteroids ?g1 + 1\<rparr>"
  let ?base = "(basePosition g = x \<and> y = 2) \<or> (basePosition g = x + 1 \<and> y = 1)
           \<or> (basePosition g = x - 1 \<and> y = 1)"
  show ?thesis
  proof (cases "?a = - 1")
    case True
    with assms have "g' = g" by (simp add: advance_cell_def)
    with True show ?thesis by (rule that(1))
  next
    case a: False
    show ?thesis
    proof (cases "projectile_at g (of_int x) (of_int y) = - 1")
      case False
      with assms a show ?thesis
        by (intro that(2)) (simp_all add: advance_cell_def Let_def)
    next
      case p0: True
      show ?thesis
      proof (cases "projectile_at g (of_int x) (of_int (y - 1)) = - 1")
        case False
        with assms a p0 show ?thesis
          by (intro that(3)) (simp_all add: advance_cell_def Let_def)
      next
        case p1: True
        show ?thesis
        proof (cases ?base)
          case True
          with assms a p0 p1 show ?thesis
            by (intro that(4)) (simp_all add: advance_cell_def Let_def)
        next
          case nb: False
          have "advance_cell rnd x y g
                  = (if ?base
                     then regen_asteroid rnd (enable_basehit_sound (?g1\<lparr>lives := lives ?g1 - 1\<rparr>))
                     else if y \<noteq> 0
                       then Some (?g2\<lparr>asteroids := (asteroids ?g2)
                           [nat (numAsteroids ?g2 - 1) :=
                              GAME_POSITION (of_int x) (of_int (y - 1))]\<rparr>)
                       else Option.bind (free_column rnd ?g2) (\<lambda>(new_x, g3).
                         Some (g3\<lparr>asteroids := (asteroids g3)
                           [nat (numAsteroids g3 - 1) := GAME_POSITION new_x 15]\<rparr>)))"
            using a p0 p1 by (simp add: advance_cell_def Let_def)
          then have eq: "advance_cell rnd x y g
                  = (if y \<noteq> 0
                       then Some (?g2\<lparr>asteroids := (asteroids ?g2)
                           [nat (numAsteroids ?g2 - 1) :=
                              GAME_POSITION (of_int x) (of_int (y - 1))]\<rparr>)
                       else Option.bind (free_column rnd ?g2) (\<lambda>(new_x, g3).
                         Some (g3\<lparr>asteroids := (asteroids g3)
                           [nat (numAsteroids g3 - 1) := GAME_POSITION new_x 15]\<rparr>)))"
            by (simp only: if_not_P [OF nb])
          show ?thesis
          proof (cases "y = 0")
            case False
            with assms eq
            have "g' = ?g2\<lparr>asteroids := (asteroids ?g2)
                           [nat (numAsteroids ?g2 - 1) :=
                              GAME_POSITION (of_int x) (of_int (y - 1))]\<rparr>"
              by simp
            with a p0 p1 nb False show ?thesis
              by (intro that(5)) simp_all
          next
            case True
            with assms eq
            have b: "Option.bind (free_column rnd ?g2) (\<lambda>(new_x, g3).
                Some (g3\<lparr>asteroids := (asteroids g3)
                           [nat (numAsteroids g3 - 1) := GAME_POSITION new_x 15]\<rparr>))
                     = Some g'"
              by simp
            then obtain r where r: "free_column rnd ?g2 = Some r"
              by (cases "free_column rnd ?g2") simp_all
            from free_column_Some [of rnd ?g2 r, OF r] obtain k where
              k: "snd r = ?g2\<lparr>rcalls := k\<rparr>" by blast
            obtain new_x where r': "r = (new_x, ?g2\<lparr>rcalls := k\<rparr>)"
              using k by (cases r) simp
            have fc: "free_column rnd ?g2 = Some (new_x, ?g2\<lparr>rcalls := k\<rparr>)"
              using r r' by simp
            have "g' = ?g2\<lparr>rcalls := k, asteroids := (asteroids ?g1)
                         [nat (numAsteroids ?g1) := GAME_POSITION new_x 15]\<rparr>"
              using b unfolding fc by simp
            with a p0 p1 True fc show ?thesis
              by (intro that(6) [of new_x k]) simp_all
          qed
        qed
      qed
    qed
  qed
qed

text \<open>
  The two \<open>for\<close> loops: a property that holds before a column (a pass) and that each
  cell (each column) keeps holds after it.
\<close>

lemma advance_asteroids_y_invariant:
  assumes "advance_asteroids_y rnd x y g = Some g'"
    and "0 \<le> y" and "y \<le> 16" and "I y g"
    and step: "\<And>y g g'. I y g \<Longrightarrow> 0 \<le> y \<Longrightarrow> y < 16 \<Longrightarrow>
                 advance_cell rnd x y g = Some g' \<Longrightarrow> I (y + 1) g'"
  shows "I 16 g'"
  using assms
proof (induction rnd x y g rule: advance_asteroids_y.induct)
  case (1 rnd x y g)
  show ?case
  proof (cases "y < 16")
    case False
    with "1.prems" have "y = 16" "g' = g"
      by (simp_all add: advance_asteroids_y.simps [of rnd x y g])
    with "1.prems" show ?thesis by simp
  next
    case True
    with "1.prems"(1) obtain a where a: "advance_cell rnd x y g = Some a"
      and rest: "advance_asteroids_y rnd x (y + 1) a = Some g'"
      by (cases "advance_cell rnd x y g")
         (simp_all add: advance_asteroids_y.simps [of rnd x y g])
    have "I (y + 1) a" by (rule "1.prems"(5) [OF "1.prems"(4,2) True a])
    with "1.IH" [OF True a rest] "1.prems"(2,5) True show ?thesis by simp
  qed
qed

lemma advance_asteroids_x_invariant:
  assumes "advance_asteroids_x rnd x g = Some g'"
    and "0 \<le> x" and "x \<le> 8" and "J x g"
    and step: "\<And>x g g'. J x g \<Longrightarrow> 0 \<le> x \<Longrightarrow> x < 8 \<Longrightarrow>
                 advance_asteroids_y rnd x 0 g = Some g' \<Longrightarrow> J (x + 1) g'"
  shows "J 8 g'"
  using assms
proof (induction rnd x g rule: advance_asteroids_x.induct)
  case (1 rnd x g)
  show ?case
  proof (cases "x < 8")
    case False
    with "1.prems" have "x = 8" "g' = g"
      by (simp_all add: advance_asteroids_x.simps [of rnd x g])
    with "1.prems" show ?thesis by simp
  next
    case True
    with "1.prems"(1) obtain a where a: "advance_asteroids_y rnd x 0 g = Some a"
      and rest: "advance_asteroids_x rnd (x + 1) a = Some g'"
      by (cases "advance_asteroids_y rnd x 0 g")
         (simp_all add: advance_asteroids_x.simps [of rnd x g])
    have "J (x + 1) a" by (rule "1.prems"(5) [OF "1.prems"(4,2) True a])
    with "1.IH" [OF True a rest] "1.prems"(2,5) True show ?thesis by simp
  qed
qed

section \<open>Lives\<close>

lemma regen_asteroid_lives:
  assumes "regen_asteroid rnd g = Some g'"
  shows "lives g' = lives g \<and> basePosition g' = basePosition g"
proof -
  from regen_asteroid_Some [OF assms] obtain c k where
    "g' = g\<lparr>rcalls := k, numAsteroids := numAsteroids g + 1,
                  asteroids := (asteroids g)
                    [nat (numAsteroids g) := GAME_POSITION (of_nat c) 15]\<rparr>"
    by blast
  then show ?thesis by simp
qed

lemma base_ram_lives:
  "lives g - 1 \<le> lives (base_ram x y g) \<and> lives (base_ram x y g) \<le> lives g"
  by (simp add: base_ram_def Let_def enable_basehit_sound_def)

lemma move_base_lives:
  assumes "move_base d g = (r, g')"
  shows "lives g - 2 \<le> lives g' \<and> lives g' \<le> lives g"
proof -
  have two: "lives g - 2 \<le> lives (base_ram x' y' (base_ram x y g))
             \<and> lives (base_ram x' y' (base_ram x y g)) \<le> lives g" for x y x' y'
    using base_ram_lives [of g x y] base_ram_lives [of "base_ram x y g" x' y'] by simp
  show ?thesis
  proof (cases "d = MOVE_LEFT \<and> basePosition g \<noteq> 0")
    case True
    with assms have "lives g' = lives (base_ram (of_int (basePosition g - 1)) 1
                        (base_ram (of_int (basePosition g - 2)) 0 g))"
      by (auto simp add: move_base_def Let_def)
    with two show ?thesis by simp
  next
    case left: False
    show ?thesis
    proof (cases "d = MOVE_RIGHT \<and> basePosition g \<noteq> 7")
      case True
      with assms left have "lives g' = lives (base_ram (of_int (basePosition g + 1)) 1
                        (base_ram (of_int (basePosition g + 2)) 0 g))"
        by (auto simp add: move_base_def Let_def)
      with two show ?thesis by simp
    next
      case False
      with assms left have "g' = g" by (auto simp add: move_base_def)
      then show ?thesis by simp
    qed
  qed
qed

lemma fire_projectile_lives:
  assumes "fire_projectile rnd g = Some (r, g')"
  shows "lives g' = lives g"
proof (cases "numProjectiles g < MAX_PROJECTILES g
               \<and> projectile_at g (of_int (basePosition g)) 2 = - 1")
  case False
  with assms have "g' = g" by (auto simp add: fire_projectile_def)
  then show ?thesis by simp
next
  case room: True
  show ?thesis
  proof (cases "asteroid_at g (of_int (basePosition g)) 2 \<noteq> - 1")
    case False
    with assms room show ?thesis by (auto simp add: fire_projectile_def Let_def)
  next
    case True
    let ?g1 = "remove_asteroid (asteroid_at g (of_int (basePosition g)) 2) g"
    from assms room True obtain g2 where g2: "regen_asteroid rnd ?g1 = Some g2"
      and g': "g' = add_to_score 1 g2"
      by (cases "regen_asteroid rnd ?g1") (auto simp add: fire_projectile_def)
    from regen_asteroid_lives [OF g2] g' show ?thesis by (simp add: add_to_score_def)
  qed
qed

lemma advance_projectiles_lives:
  assumes "advance_projectiles rnd g = Some g'"
  shows "lives g' = lives g"
proof -
  from assms have run: "advance_projectiles_loop rnd 0 g = Some g'"
    by (simp add: advance_projectiles_def)
  have "\<exists>k. lives g' = lives g \<and> \<not> int k < numProjectiles g'"
  proof (rule advance_projectiles_loop_invariant
      [of rnd 0 g g' "\<lambda>k s. lives s = lives g", OF run])
    fix i :: nat and s g2 :: game
    assume "lives s = lives g"
      and "regen_asteroid rnd (add_to_score 1
                  (remove_asteroid
                     (asteroid_at (remove_projectile (int i) s)
                        (GET_X_POSITION (projectiles s ! i))
                        (GET_Y_POSITION (projectiles s ! i) + 1))
                     (remove_projectile (int i) s))) = Some g2"
    then show "lives g2 = lives g"
      using regen_asteroid_lives [of rnd _ g2] by (simp add: add_to_score_def)
  qed simp_all
  then show ?thesis by simp
qed

text \<open>
  A step of \<open>advance_asteroids\<close> takes a life only at one of the three cells next to
  the base, and then one life.
\<close>

lemma advance_cell_lives:
  assumes "advance_cell rnd x y g = Some g'"
  shows "basePosition g' = basePosition g \<and> lives g' \<le> lives g
         \<and> lives g - (if (basePosition g = x \<and> y = 2) \<or> (basePosition g = x + 1 \<and> y = 1)
                           \<or> (basePosition g = x - 1 \<and> y = 1) then 1 else 0) \<le> lives g'"
  using assms
proof (cases rule: advance_cell_cases)
  case none
  then show ?thesis by simp
next
  case hit_here
  from regen_asteroid_lives [OF hit_here(3)] show ?thesis by (simp add: add_to_score_def)
next
  case hit_below
  from regen_asteroid_lives [OF hit_below(4)] show ?thesis by (simp add: add_to_score_def)
next
  case base
  from regen_asteroid_lives [OF base(5)] base(4) show ?thesis
    by (simp add: enable_basehit_sound_def)
next
  case down
  then show ?thesis by simp
next
  case (respawn new_x k)
  then show ?thesis by simp
qed

lemma advance_asteroids_y_lives:
  assumes "advance_asteroids_y rnd x 0 g = Some g'"
  shows "basePosition g' = basePosition g \<and> lives g' \<le> lives g
         \<and> lives g - ((if basePosition g = x then 1 else 0)
                       + (if basePosition g = x + 1 \<or> basePosition g = x - 1 then 1 else 0))
             \<le> lives g'"
proof -
  define b where "b = basePosition g"
  define D :: "int \<Rightarrow> int" where
    "D = (\<lambda>y. (if b = x \<and> y \<le> 2 then 1 else 0)
              + (if (b = x + 1 \<or> b = x - 1) \<and> y \<le> 1 then 1 else 0))"
  define I where
    "I = (\<lambda>(y :: int) (s :: game). basePosition s = b \<and> lives s \<le> lives g \<and> lives g - D 0 + D y \<le> lives s)"
  have "I 16 g'"
  proof (rule advance_asteroids_y_invariant [of rnd x 0 g g' I, OF assms])
    show "I 0 g" by (simp add: I_def b_def)
  next
    fix y :: int and s s' :: game
    assume I: "I y s" and y: "0 \<le> y" "y < 16" and cell: "advance_cell rnd x y s = Some s'"
    from advance_cell_lives [OF cell] I
    have "basePosition s' = b" "lives s' \<le> lives g"
      and "lives s - (if (b = x \<and> y = 2) \<or> (b = x + 1 \<and> y = 1) \<or> (b = x - 1 \<and> y = 1)
                      then 1 else 0) \<le> lives s'"
      by (simp_all add: I_def)
    moreover have "D (y + 1) + (if (b = x \<and> y = 2) \<or> (b = x + 1 \<and> y = 1)
                                   \<or> (b = x - 1 \<and> y = 1) then 1 else 0) \<le> D y"
      using y by (auto simp add: D_def)
    moreover have "lives g - D 0 + D y \<le> lives s" using I by (simp add: I_def)
    ultimately show "I (y + 1) s'" by (simp add: I_def)
  qed simp_all
  then show ?thesis by (simp add: I_def D_def b_def)
qed

lemma advance_asteroids_lives:
  assumes "advance_asteroids rnd g = Some g'"
  shows "basePosition g' = basePosition g \<and> lives g' \<le> lives g \<and> lives g - 3 \<le> lives g'"
proof -
  from assms have run: "advance_asteroids_x rnd 0 g = Some g'"
    by (simp add: advance_asteroids_def)
  define b where "b = basePosition g"
  define E :: "int \<Rightarrow> int" where
    "E = (\<lambda>x. (if x \<le> b then 1 else 0) + (if x \<le> b - 1 then 1 else 0)
              + (if x \<le> b + 1 then 1 else 0))"
  define J where
    "J = (\<lambda>(x :: int) (s :: game). basePosition s = b \<and> lives s \<le> lives g \<and> lives g - E 0 + E x \<le> lives s)"
  have "J 8 g'"
  proof (rule advance_asteroids_x_invariant [of rnd 0 g g' J, OF run])
    show "J 0 g" by (simp add: J_def b_def)
  next
    fix x :: int and s s' :: game
    assume J: "J x s" and x: "0 \<le> x" "x < 8"
      and col: "advance_asteroids_y rnd x 0 s = Some s'"
    from advance_asteroids_y_lives [OF col] J
    have "basePosition s' = b" "lives s' \<le> lives g"
      and "lives s - ((if b = x then 1 else 0)
                       + (if b = x + 1 \<or> b = x - 1 then 1 else 0)) \<le> lives s'"
      by (simp_all add: J_def)
    moreover have "E (x + 1) + ((if b = x then 1 else 0)
                       + (if b = x + 1 \<or> b = x - 1 then 1 else 0)) \<le> E x"
      by (auto simp add: E_def)
    moreover have "lives g - E 0 + E x \<le> lives s" using J by (simp add: J_def)
    ultimately show "J (x + 1) s'" by (simp add: J_def)
  qed simp_all
  moreover have "E 0 \<le> 3" "0 \<le> E 8" by (simp_all add: E_def)
  ultimately show ?thesis by (simp add: J_def b_def)
qed

lemma new_game_lives:
  assumes "new_game rnd now g = Some g'"
  shows "lives g' = 4"
proof -
  from assms obtain g1 where g1: "initialise_game rnd g = Some g1"
    and g': "g' = (init_score g1)\<lparr>basehit_sequence := 1, basehit_time := now\<rparr>"
    by (cases "initialise_game rnd g") (simp_all add: new_game_def)
  from initialise_game_Some [OF g1] g' show ?thesis by (simp add: init_score_def)
qed

lemma handle_basehit_sound_lives [simp]: "lives (handle_basehit_sound t1 t2 g) = lives g"
  by (simp add: handle_basehit_sound_def Let_def)

text \<open>
  C7. In every reachable state the lives are at most 4 and at least -2, and
  \<open>is_game_over\<close> returns 1 exactly when they are below 1. The operations run only
  while a life is left, \<open>move_base\<close> takes at most two lives and a pass of
  \<open>advance_asteroids\<close> at most three, so the count can end below 0.
\<close>

theorem lives_range:
  assumes "reachable rnd g"
  shows "- 2 \<le> lives g \<and> lives g \<le> 4 \<and> (is_game_over g = 1) = (lives g < 1)"
proof -
  have over: "(is_game_over s = 1) = (lives s < 1)" for s
    by (simp add: is_game_over_def)
  have alive: "is_game_over s = 0 \<Longrightarrow> 1 \<le> lives s" for s
    by (simp add: is_game_over_def split: if_splits)
  from assms have "- 2 \<le> lives g \<and> lives g \<le> 4"
  proof (induction rule: reachable.induct)
    case (start g0 now g)
    from new_game_lives [OF start(3)] show ?case by simp
  next
    case (move g d r g')
    from move_base_lives [OF move(3)] alive [OF move(2)] move.IH show ?case by simp
  next
    case (fire g r g')
    from fire_projectile_lives [OF fire(3)] fire.IH show ?case by simp
  next
    case (asteroids g g')
    from advance_asteroids_lives [OF asteroids(3)] alive [OF asteroids(2)] asteroids.IH
    show ?case by simp
  next
    case (projectiles g g')
    from advance_projectiles_lives [OF projectiles(3)] projectiles.IH show ?case by simp
  next
    case (alarm g t1 t2)
    then show ?case by simp
  qed
  with over show ?thesis by simp
qed

lemma ram_state_reachable:
  "reachable hit_draws ram_state"
proof -
  let ?s1 = "\<lparr>basePosition = 3, numProjectiles = 0, projectiles = [0, 0],
    numAsteroids = 5, asteroids = [52, 35, 67, 99, 84], lives = 4,
    score = 0, rcalls = 10, base_hit_sound = 0, basehit_sequence = 1,
    basehit_time = 0\<rparr>"
  let ?s2 = "\<lparr>basePosition = 3, numProjectiles = 0, projectiles = [0, 0],
    numAsteroids = 5, asteroids = [34, 66, 51, 83, 98], lives = 4,
    score = 0, rcalls = 10, base_hit_sound = 0, basehit_sequence = 1,
    basehit_time = 0\<rparr>"
  have "MAX_ASTEROIDS blank_state \<le> 127" "MAX_PROJECTILES blank_state \<le> 127"
    by code_simp+
  moreover have "new_game hit_draws 0 blank_state = Some ?s1" by code_simp
  ultimately have r1: "reachable hit_draws ?s1" by (rule reachable.start)
  have "is_game_over ?s1 = 0" by code_simp
  moreover have "advance_asteroids hit_draws ?s1 = Some ?s2" by code_simp
  ultimately have r2: "reachable hit_draws ?s2" by (rule reachable.asteroids [OF r1])
  have "is_game_over ?s2 = 0" by code_simp
  moreover have "advance_asteroids hit_draws ?s2 = Some ram_state" by code_simp
  ultimately show ?thesis by (rule reachable.asteroids [OF r2])
qed

lemma out_of_lives_reachable:
  "reachable hit_draws out_of_lives_state"
proof -
  let ?s4 = "\<lparr>basePosition = 3, numProjectiles = 0, projectiles = [0, 0],
    numAsteroids = 5, asteroids = [47, 15, 81, 31, 96], lives = 1,
    score = 0, rcalls = 13, base_hit_sound = 1, basehit_sequence = 1,
    basehit_time = 0\<rparr>"
  let ?s5 = "\<lparr>basePosition = 4, numProjectiles = 0, projectiles = [0, 0],
    numAsteroids = 5, asteroids = [47, 15, 81, 31, 96], lives = 1,
    score = 0, rcalls = 13, base_hit_sound = 1, basehit_sequence = 1,
    basehit_time = 0\<rparr>"
  have "is_game_over ram_state = 0" by code_simp
  moreover have "advance_asteroids hit_draws ram_state = Some ?s4" by code_simp
  ultimately have r4: "reachable hit_draws ?s4"
    by (rule reachable.asteroids [OF ram_state_reachable])
  have "is_game_over ?s4 = 0" by code_simp
  moreover have "move_base MOVE_RIGHT ?s4 = (1, ?s5)" by code_simp
  ultimately have r5: "reachable hit_draws ?s5" by (rule reachable.move [OF r4])
  have "is_game_over ?s5 = 0" by code_simp
  moreover have "move_base MOVE_RIGHT ?s5 = (1, out_of_lives_state)" by code_simp
  ultimately show ?thesis by (rule reachable.move [OF r5])
qed

theorem lives_range_witness:
  "reachable hit_draws out_of_lives_state
   \<and> - 2 \<le> lives out_of_lives_state \<and> lives out_of_lives_state \<le> 4
   \<and> is_game_over out_of_lives_state = 1 \<and> lives out_of_lives_state < 1"
  using lives_range [OF out_of_lives_reachable] out_of_lives_reachable
  by (simp add: out_of_lives_state_def)

theorem lives_below_zero_counterexample:
  "reachable hit_draws out_of_lives_state \<and> lives out_of_lives_state = - 1
   \<and> \<not> 0 \<le> lives out_of_lives_state"
  using out_of_lives_reachable by (simp add: out_of_lives_state_def)

section \<open>Ramming an asteroid\<close>

text \<open>
  C1. The state \<open>ram_state\<close> is reached from \<open>new_game\<close> by two passes of
  \<open>advance_asteroids\<close>; its asteroid array is full. There a move to the right destroys
  the asteroid at (4,1) and regenerates none: it takes a life, draws no random number
  and leaves 4 of the 5 asteroids, and after the next pass of \<open>advance_asteroids\<close>
  there are still 4.
\<close>

theorem move_base_loses_asteroids:
  "reachable hit_draws ram_state
   \<and> numAsteroids ram_state = 5 \<and> MAX_ASTEROIDS ram_state = 5
   \<and> asteroid_at ram_state 4 1 = 3
   \<and> fst (move_base MOVE_RIGHT ram_state) = 1
   \<and> numAsteroids (snd (move_base MOVE_RIGHT ram_state)) = 4
   \<and> live_asteroids (snd (move_base MOVE_RIGHT ram_state))
       = [GAME_POSITION 5 2, GAME_POSITION 3 2, GAME_POSITION 2 1, GAME_POSITION 6 1]
   \<and> lives (snd (move_base MOVE_RIGHT ram_state)) = lives ram_state - 1
   \<and> rcalls (snd (move_base MOVE_RIGHT ram_state)) = rcalls ram_state
   \<and> map_option numAsteroids
        (advance_asteroids hit_draws (snd (move_base MOVE_RIGHT ram_state))) = Some 4"
proof -
  have "numAsteroids ram_state = 5" "MAX_ASTEROIDS ram_state = 5"
    "asteroid_at ram_state 4 1 = 3"
    "fst (move_base MOVE_RIGHT ram_state) = 1"
    "numAsteroids (snd (move_base MOVE_RIGHT ram_state)) = 4"
    "live_asteroids (snd (move_base MOVE_RIGHT ram_state))
       = [GAME_POSITION 5 2, GAME_POSITION 3 2, GAME_POSITION 2 1, GAME_POSITION 6 1]"
    "lives (snd (move_base MOVE_RIGHT ram_state)) = lives ram_state - 1"
    "rcalls (snd (move_base MOVE_RIGHT ram_state)) = rcalls ram_state"
    "map_option numAsteroids
        (advance_asteroids hit_draws (snd (move_base MOVE_RIGHT ram_state))) = Some 4"
    by code_simp+
  with ram_state_reachable show ?thesis by simp
qed

section \<open>No two entities in one cell\<close>

lemma no_shared_cell_iff:
  "no_shared_cell g = (distinct (live_asteroids g) \<and> distinct (live_projectiles g))"
proof -
  have "inj_on cell A" for A by (rule inj_onI) (rule cell_inj)
  then show ?thesis by (simp add: no_shared_cell_def distinct_map)
qed

lemma live_asteroids_cong:
  "numAsteroids g' = numAsteroids g \<Longrightarrow> asteroids g' = asteroids g \<Longrightarrow>
   live_asteroids g' = live_asteroids g"
  by (simp add: live_asteroids_def)

lemma live_projectiles_cong:
  "numProjectiles g' = numProjectiles g \<Longrightarrow> projectiles g' = projectiles g \<Longrightarrow>
   live_projectiles g' = live_projectiles g"
  by (simp add: live_projectiles_def)

lemma projectile_at_cong:
  "numProjectiles g' = numProjectiles g \<Longrightarrow> projectiles g' = projectiles g \<Longrightarrow>
   projectile_at g' x y = projectile_at g x y"
  by (simp add: projectile_at_def)

text \<open>The invariant depends on the two arrays and their counts only.\<close>

lemma engine_inv_cong:
  assumes "numAsteroids g' = numAsteroids g" and "asteroids g' = asteroids g"
    and "numProjectiles g' = numProjectiles g" and "projectiles g' = projectiles g"
  shows "engine_inv g' = engine_inv g"
  using assms
  by (simp add: engine_inv_def bags_ok_def MAX_ASTEROIDS_def MAX_PROJECTILES_def
      live_asteroids_def live_projectiles_def)

lemma remove_asteroid_inv:
  assumes "engine_inv g" and "0 \<le> i" and "i < numAsteroids g"
  shows "engine_inv (remove_asteroid i g)"
    and "set (live_asteroids (remove_asteroid i g))
           = set (live_asteroids g) - {asteroids g ! nat i}"
proof -
  from assms(1) have n: "numAsteroids g \<le> MAX_ASTEROIDS g"
    and d: "distinct (live_asteroids g)"
    by (simp_all add: engine_inv_def bags_ok_def)
  have live: "live_asteroids (remove_asteroid i g)
                = butlast ((live_asteroids g)[nat i := last (live_asteroids g)])"
    by (rule remove_asteroid_live [OF assms(2,3) n])
  have len: "nat i < length (live_asteroids g)"
    using assms(2,3) n by (simp add: live_asteroids_def MAX_ASTEROIDS_def)
  have at: "live_asteroids g ! nat i = asteroids g ! nat i"
    using assms(2,3) by (simp add: live_asteroids_def)
  from swap_remove_distinct [OF d len] live at
  have dd: "distinct (live_asteroids (remove_asteroid i g))"
    and ss: "set (live_asteroids (remove_asteroid i g))
           = set (live_asteroids g) - {asteroids g ! nat i}"
    by simp_all
  from ss show "set (live_asteroids (remove_asteroid i g))
           = set (live_asteroids g) - {asteroids g ! nat i}" .
  have "live_projectiles (remove_asteroid i g) = live_projectiles g"
    by (rule live_projectiles_cong) simp_all
  with assms dd show "engine_inv (remove_asteroid i g)"
    by (simp add: engine_inv_def bags_ok_def remove_asteroid_count
        MAX_ASTEROIDS_def MAX_PROJECTILES_def)
qed

lemma distinct_remove_nth: "distinct xs \<Longrightarrow> distinct (take i xs @ drop (Suc i) xs)"
proof (induction xs arbitrary: i)
  case Nil
  then show ?case by simp
next
  case (Cons a xs)
  show ?case
  proof (cases i)
    case 0
    with Cons.prems show ?thesis by simp
  next
    case (Suc j)
    have "a \<notin> set (take j xs)" "a \<notin> set (drop (Suc j) xs)"
      using Cons.prems by (auto dest: in_set_takeD in_set_dropD)
    moreover have "distinct (take j xs @ drop (Suc j) xs)"
      using Cons.prems by (intro Cons.IH) simp
    ultimately show ?thesis using Suc by simp
  qed
qed

lemma remove_projectile_inv:
  assumes "engine_inv g" and "0 \<le> i" and "i < numProjectiles g"
  shows "engine_inv (remove_projectile i g)"
proof -
  from assms(1) have n: "numProjectiles g \<le> MAX_PROJECTILES g"
    and d: "distinct (live_projectiles g)"
    by (simp_all add: engine_inv_def bags_ok_def)
  have live: "live_projectiles (remove_projectile i g)
           = take (nat i) (live_projectiles g) @ drop (Suc (nat i)) (live_projectiles g)"
    by (rule remove_projectile_live [OF assms(2,3) n])
  have "distinct (take (nat i) (live_projectiles g) @ drop (Suc (nat i)) (live_projectiles g))"
    using d by (rule distinct_remove_nth)
  with live have dd: "distinct (live_projectiles (remove_projectile i g))" by simp
  have "live_asteroids (remove_projectile i g) = live_asteroids g"
    by (rule live_asteroids_cong) simp_all
  with assms dd show ?thesis
    by (simp add: engine_inv_def bags_ok_def remove_projectile_count
        MAX_ASTEROIDS_def MAX_PROJECTILES_def)
qed

lemma regen_asteroid_inv:
  assumes "regen_asteroid rnd g = Some g'" and "engine_inv g"
    and "numAsteroids g < MAX_ASTEROIDS g"
  obtains c where "engine_inv g'" and "c < 8"
    and "live_asteroids g' = live_asteroids g @ [GAME_POSITION (of_nat c) 15]"
proof -
  from assms(2) have n: "0 \<le> numAsteroids g" and d: "distinct (live_asteroids g)"
    by (simp_all add: engine_inv_def bags_ok_def)
  from regen_asteroid_effect [OF assms(1) n assms(3)] obtain c where
    c: "c < 8" "GAME_POSITION (of_nat c) 15 \<notin> set (live_asteroids g)"
       "live_asteroids g' = live_asteroids g @ [GAME_POSITION (of_nat c) 15]"
       "numAsteroids g' = numAsteroids g + 1"
       "MAX_ASTEROIDS g' = MAX_ASTEROIDS g"
    and frame: "numProjectiles g' = numProjectiles g \<and> projectiles g' = projectiles g"
    by blast
  have "live_projectiles g' = live_projectiles g"
    using frame by (simp add: live_projectiles_def)
  with assms(2,3) c d frame have "engine_inv g'"
    by (simp add: engine_inv_def bags_ok_def MAX_PROJECTILES_def)
  then show ?thesis using c(1,3) by (rule that)
qed

lemma base_ram_inv:
  assumes "engine_inv g"
  shows "engine_inv (base_ram x y g)"
proof (cases "asteroid_at g x y \<noteq> - 1")
  case False
  with assms show ?thesis by (simp add: base_ram_def)
next
  case True
  let ?g2 = "(enable_basehit_sound g)\<lparr>lives := lives (enable_basehit_sound g) - 1\<rparr>"
  have same: "numAsteroids ?g2 = numAsteroids g" "asteroids ?g2 = asteroids g"
    "numProjectiles ?g2 = numProjectiles g" "projectiles ?g2 = projectiles g"
    by (simp_all add: enable_basehit_sound_def)
  have inv2: "engine_inv ?g2" using assms engine_inv_cong [OF same] by simp
  have at: "asteroid_at ?g2 x y = asteroid_at g x y"
    by (rule asteroid_at_cong [OF same(1,2)])
  from asteroid_at_found [OF True] at
  have "0 \<le> asteroid_at ?g2 x y" "asteroid_at ?g2 x y < numAsteroids ?g2"
    using same(1) by simp_all
  then have "engine_inv (remove_asteroid (asteroid_at ?g2 x y) ?g2)"
    by (rule remove_asteroid_inv(1) [OF inv2])
  with True show ?thesis by (simp add: base_ram_def Let_def)
qed

lemma move_base_inv:
  assumes "engine_inv g" and "move_base d g = (r, g')"
  shows "engine_inv g'"
proof -
  have two: "engine_inv ((base_ram x' y' (base_ram x y g))\<lparr>basePosition := b\<rparr>)"
    for x y x' y' b
  proof -
    have "engine_inv (base_ram x' y' (base_ram x y g))"
      by (intro base_ram_inv assms(1))
    moreover have "engine_inv ((base_ram x' y' (base_ram x y g))\<lparr>basePosition := b\<rparr>)
                     = engine_inv (base_ram x' y' (base_ram x y g))"
      by (rule engine_inv_cong) simp_all
    ultimately show ?thesis by simp
  qed
  show ?thesis
  proof (cases "d = MOVE_LEFT \<and> basePosition g \<noteq> 0")
    case True
    with assms(2) have "g' = (base_ram (of_int (basePosition g - 1)) 1
                        (base_ram (of_int (basePosition g - 2)) 0 g))
                          \<lparr>basePosition := basePosition g - 1\<rparr>"
      by (auto simp add: move_base_def Let_def)
    with two show ?thesis by simp
  next
    case left: False
    show ?thesis
    proof (cases "d = MOVE_RIGHT \<and> basePosition g \<noteq> 7")
      case True
      with assms(2) left have "g' = (base_ram (of_int (basePosition g + 1)) 1
                        (base_ram (of_int (basePosition g + 2)) 0 g))
                          \<lparr>basePosition := basePosition g + 1\<rparr>"
        by (auto simp add: move_base_def Let_def)
      with two show ?thesis by simp
    next
      case False
      with assms left have "g' = g" by (auto simp add: move_base_def)
      with assms(1) show ?thesis by simp
    qed
  qed
qed

lemma live_projectiles_append:
  assumes "0 \<le> numProjectiles g" and "numProjectiles g < MAX_PROJECTILES g"
  shows "take (nat (numProjectiles g + 1)) ((projectiles g)[nat (numProjectiles g) := p])
           = live_projectiles g @ [p]"
proof -
  have "nat (numProjectiles g + 1) = Suc (nat (numProjectiles g))" using assms by simp
  moreover have "nat (numProjectiles g) < length (projectiles g)"
    using assms by (simp add: MAX_PROJECTILES_def)
  ultimately show ?thesis
    by (simp add: live_projectiles_def take_append_entry)
qed

lemma fire_projectile_inv:
  assumes "engine_inv g" and "fire_projectile rnd g = Some (r, g')"
  shows "engine_inv g'"
proof (cases "numProjectiles g < MAX_PROJECTILES g
               \<and> projectile_at g (of_int (basePosition g)) 2 = - 1")
  case False
  with assms have "g' = g" by (auto simp add: fire_projectile_def)
  with assms(1) show ?thesis by simp
next
  case room: True
  let ?a = "asteroid_at g (of_int (basePosition g)) 2"
  show ?thesis
  proof (cases "?a \<noteq> - 1")
    case True
    let ?g1 = "remove_asteroid ?a g"
    from assms(2) room True obtain g2 where g2: "regen_asteroid rnd ?g1 = Some g2"
      and g': "g' = add_to_score 1 g2"
      by (cases "regen_asteroid rnd ?g1") (auto simp add: fire_projectile_def)
    from asteroid_at_found [OF True] have a: "0 \<le> ?a" "?a < numAsteroids g" by simp_all
    have inv1: "engine_inv ?g1" by (rule remove_asteroid_inv(1) [OF assms(1) a])
    have "numAsteroids ?g1 < MAX_ASTEROIDS ?g1"
      using a assms(1)
      by (simp add: remove_asteroid_count engine_inv_def bags_ok_def MAX_ASTEROIDS_def)
    from regen_asteroid_inv [OF g2 inv1 this] have "engine_inv g2" by blast
    moreover have "engine_inv g' = engine_inv g2"
      unfolding g' by (rule engine_inv_cong) (simp_all add: add_to_score_def)
    ultimately show ?thesis by simp
  next
    case False
    let ?p = "GAME_POSITION (of_int (basePosition g)) 2"
    from assms(2) room False
    have g': "g' = g\<lparr>numProjectiles := numProjectiles g + 1,
                     projectiles := (projectiles g)[nat (numProjectiles g) := ?p]\<rparr>"
      by (auto simp add: fire_projectile_def Let_def)
    from assms(1) have n: "0 \<le> numProjectiles g"
      "numProjectiles g \<le> MAX_PROJECTILES g" and d: "distinct (live_projectiles g)"
      by (simp_all add: engine_inv_def bags_ok_def)
    have live: "live_projectiles g' = live_projectiles g @ [?p]"
      using live_projectiles_append [OF n(1), of ?p] room g'
      by (simp add: live_projectiles_def)
    have fresh: "?p \<notin> set (live_projectiles g)"
      using room n(2) by (simp add: projectile_at_none)
    have "live_asteroids g' = live_asteroids g"
      using g' by (simp add: live_asteroids_def)
    with assms(1) room live fresh d g' show ?thesis
      by (simp add: engine_inv_def bags_ok_def MAX_ASTEROIDS_def MAX_PROJECTILES_def)
  qed
qed

lemma initialise_game_arrays:
  assumes "initialise_game rnd g = Some g'"
  shows "projectiles g' = projectiles g"
proof -
  let ?g0 = "g\<lparr>basePosition := 3, numProjectiles := 0, numAsteroids := 0, lives := 4\<rparr>"
  have loop: "initialise_loop rnd (MAX_ASTEROIDS g) 0 ?g0 = Some g'"
    using assms by (simp add: initialise_game_def)
  have n0: "numAsteroids ?g0 = int 0" by simp
  have mx: "MAX_ASTEROIDS g = MAX_ASTEROIDS ?g0" by (simp add: MAX_ASTEROIDS_def)
  from initialise_loop_Some [OF loop n0 mx] show ?thesis by simp
qed

lemma new_game_inv:
  assumes "MAX_ASTEROIDS g \<le> 127" and "MAX_PROJECTILES g \<le> 127"
    and "new_game rnd now g = Some g'"
  shows "engine_inv g'"
proof -
  from assms(3) obtain g1 where g1: "initialise_game rnd g = Some g1"
    and g': "g' = (init_score g1)\<lparr>basehit_sequence := 1, basehit_time := now\<rparr>"
    by (cases "initialise_game rnd g") (simp_all add: new_game_def)
  note i = initialise_game_Some [OF g1] initialise_game_arrays [OF g1]
  have "live_projectiles g1 = []" using i by (simp add: live_projectiles_def)
  moreover have "0 \<le> MAX_ASTEROIDS g" by (simp add: MAX_ASTEROIDS_def)
  ultimately have "engine_inv g1" using i assms(1,2)
    by (simp add: engine_inv_def bags_ok_def MAX_PROJECTILES_def)
  moreover have "engine_inv g' = engine_inv g1"
    unfolding g' by (rule engine_inv_cong) (simp_all add: init_score_def)
  ultimately show ?thesis by simp
qed

lemma handle_basehit_sound_inv:
  "engine_inv (handle_basehit_sound t1 t2 g) = engine_inv g"
  by (rule engine_inv_cong) (simp_all add: handle_basehit_sound_def Let_def)

text \<open>
  In the projectile loop two projectiles can share a cell between two rounds: one that
  has moved up and one that is still to move. What holds at every round is that the
  projectiles are apart once those below the index are put back one row down. A
  position of a projectile that has moved is one more than it was, so that "one row
  down" is "minus one".
\<close>

lemma apart_at_removed:
  assumes "apart_at k xs" and "k < length xs"
  shows "apart_at k (take k xs @ drop (Suc k) xs)"
proof -
  have "drop k xs = xs ! k # drop (Suc k) xs"
    using assms(2) by (simp add: Cons_nth_drop_Suc)
  with assms(1) have d: "distinct (map (\<lambda>p. p - 1) (take k xs) @ drop (Suc k) xs)"
    by (simp add: apart_at_def)
  have t1: "take k (take k xs @ drop (Suc k) xs) = take k xs"
    using assms(2) by simp
  have t2: "drop k (take k xs @ drop (Suc k) xs) = drop (Suc k) xs"
    using assms(2) by simp
  show ?thesis unfolding apart_at_def t1 t2 by (rule d)
qed

lemma apart_at_moved:
  assumes "apart_at k xs" and "k < length xs"
  shows "apart_at (Suc k) (xs[k := xs ! k + 1])"
proof -
  have t1: "take (Suc k) (xs[k := xs ! k + 1]) = take k xs @ [xs ! k + 1]"
    using assms(2) by (rule take_append_entry)
  have t2: "drop (Suc k) (xs[k := xs ! k + 1]) = drop (Suc k) xs" by simp
  have t3: "drop k xs = xs ! k # drop (Suc k) xs"
    using assms(2) by (simp add: Cons_nth_drop_Suc)
  have "map (\<lambda>p. p - 1) (take k xs @ [xs ! k + 1]) @ drop (Suc k) xs
          = map (\<lambda>p. p - 1) (take k xs) @ drop k xs"
    unfolding t3 by simp
  with assms(1) show ?thesis unfolding apart_at_def t1 t2 by simp
qed

lemma apart_at_end:
  assumes "apart_at k xs" and "length xs \<le> k"
  shows "distinct xs"
proof -
  from assms have "distinct (map (\<lambda>p. p - 1) xs)" by (simp add: apart_at_def)
  then show ?thesis by (simp add: distinct_map)
qed

lemma apart_at_start: "apart_at 0 xs = distinct xs"
  by (simp add: apart_at_def)

lemma hit_round_asteroids:
  assumes ast: "asteroid_at g x y \<noteq> - 1"
    and ok: "0 \<le> numAsteroids g" "numAsteroids g \<le> MAX_ASTEROIDS g"
      "distinct (live_asteroids g)"
    and regen: "regen_asteroid rnd (add_to_score 1
                  (remove_asteroid (asteroid_at (remove_projectile (int i) g) x y)
                     (remove_projectile (int i) g))) = Some g2"
  shows "distinct (live_asteroids g2)"
proof -
  let ?g1 = "remove_projectile (int i) g"
  let ?j = "asteroid_at ?g1 x y"
  let ?g3 = "add_to_score 1 (remove_asteroid ?j ?g1)"
  have j: "?j = asteroid_at g x y" by (rule asteroid_at_cong) simp_all
  from asteroid_at_found [OF ast] j have jr: "0 \<le> ?j" "?j < numAsteroids ?g1" by simp_all
  have n1: "numAsteroids ?g1 \<le> MAX_ASTEROIDS ?g1" using ok by (simp add: MAX_ASTEROIDS_def)
  have live1: "live_asteroids ?g1 = live_asteroids g" by (rule live_asteroids_cong) simp_all
  have live2: "live_asteroids (remove_asteroid ?j ?g1)
                 = butlast ((live_asteroids g)[nat ?j := last (live_asteroids g)])"
    using remove_asteroid_live [OF jr n1] live1 by simp
  have len: "nat ?j < length (live_asteroids g)"
    using jr ok by (simp add: live_asteroids_def MAX_ASTEROIDS_def)
  have d2: "distinct (live_asteroids (remove_asteroid ?j ?g1))"
    using swap_remove_distinct [OF ok(3) len] live2 by simp
  have live3: "live_asteroids ?g3 = live_asteroids (remove_asteroid ?j ?g1)"
    by (rule live_asteroids_cong) (simp_all add: add_to_score_def)
  have b3: "0 \<le> numAsteroids ?g3" "numAsteroids ?g3 < MAX_ASTEROIDS ?g3"
    using jr ok by (simp_all add: add_to_score_def remove_asteroid_count MAX_ASTEROIDS_def)
  from regen_asteroid_effect [OF regen b3] obtain c where
    "GAME_POSITION (of_nat c) 15 \<notin> set (live_asteroids ?g3)"
    "live_asteroids g2 = live_asteroids ?g3 @ [GAME_POSITION (of_nat c) 15]"
    by blast
  with d2 live3 show ?thesis by simp
qed

lemma advance_projectiles_loop_apart:
  assumes run: "advance_projectiles_loop rnd i g = Some g'"
    and bags: "bags_ok g" and da: "distinct (live_asteroids g)"
    and dp: "apart_at i (live_projectiles g)"
  shows "bags_ok g' \<and> distinct (live_asteroids g') \<and> distinct (live_projectiles g')"
proof -
  define I where "I = (\<lambda>(k :: nat) (s :: game). bags_ok s \<and> distinct (live_asteroids s)
      \<and> apart_at k (live_projectiles s))"
  have init: "I i g" using bags da dp by (simp add: I_def)
  have step: "\<exists>k. I k g' \<and> \<not> int k < numProjectiles g'"
  proof (rule advance_projectiles_loop_invariant [of rnd i g g' I, OF run init])
    fix k :: nat and s :: game
    assume I: "I k s" and lt: "int k < numProjectiles s"
    from I have b: "bags_ok s" and ap: "apart_at k (live_projectiles s)"
      by (simp_all add: I_def)
    then have le: "0 \<le> numProjectiles s" "numProjectiles s \<le> MAX_PROJECTILES s"
      by (simp_all add: bags_ok_def)
    have len: "k < length (live_projectiles s)"
      using lt live_projectiles_length [OF le] by simp
    have live: "live_projectiles (remove_projectile (int k) s)
             = take k (live_projectiles s) @ drop (Suc k) (live_projectiles s)"
      using remove_projectile_live [of "int k" s] le lt by simp
    have "live_asteroids (remove_projectile (int k) s) = live_asteroids s"
      by (rule live_asteroids_cong) simp_all
    moreover have "bags_ok (remove_projectile (int k) s)"
      using b lt by (simp add: bags_ok_def remove_projectile_count
          MAX_ASTEROIDS_def MAX_PROJECTILES_def)
    moreover have "apart_at k (live_projectiles (remove_projectile (int k) s))"
      unfolding live by (rule apart_at_removed [OF ap len])
    ultimately show "I k (remove_projectile (int k) s)"
      using I by (simp add: I_def)
  next
    fix k :: nat and s g2 :: game
    let ?x = "GET_X_POSITION (projectiles s ! k)"
    let ?y = "GET_Y_POSITION (projectiles s ! k) + 1"
    assume I: "I k s" and lt: "int k < numProjectiles s"
      and ast: "asteroid_at s ?x ?y \<noteq> - 1"
      and regen: "regen_asteroid rnd (add_to_score 1
                  (remove_asteroid (asteroid_at (remove_projectile (int k) s) ?x ?y)
                     (remove_projectile (int k) s))) = Some g2"
    from I have b: "bags_ok s" and d: "distinct (live_asteroids s)"
      and ap: "apart_at k (live_projectiles s)" by (simp_all add: I_def)
    then have le: "0 \<le> numProjectiles s" "numProjectiles s \<le> MAX_PROJECTILES s"
      and na: "0 \<le> numAsteroids s" "numAsteroids s \<le> MAX_ASTEROIDS s"
      by (simp_all add: bags_ok_def)
    have len: "k < length (live_projectiles s)"
      using lt live_projectiles_length [OF le] by simp
    note e = hit_round_effect [OF lt le(2) ast regen]
    have "distinct (live_asteroids g2)"
      by (rule hit_round_asteroids [OF ast na d regen])
    moreover have "bags_ok g2" using b e lt by (simp add: bags_ok_def)
    moreover have "apart_at k (live_projectiles g2)"
      using apart_at_removed [OF ap len] e by simp
    ultimately show "I k g2" by (simp add: I_def)
  next
    fix k :: nat and s :: game
    let ?p = "projectiles s ! k"
    let ?s = "s\<lparr>projectiles := (projectiles s)
                 [k := GAME_POSITION (GET_X_POSITION ?p) (GET_Y_POSITION ?p + 1)]\<rparr>"
    assume I: "I k s" and lt: "int k < numProjectiles s"
      and y: "GET_Y_POSITION ?p + 1 \<noteq> 16"
    from I have b: "bags_ok s" and ap: "apart_at k (live_projectiles s)"
      by (simp_all add: I_def)
    then have le: "0 \<le> numProjectiles s" "numProjectiles s \<le> MAX_PROJECTILES s"
      by (simp_all add: bags_ok_def)
    have len: "k < length (live_projectiles s)"
      using lt live_projectiles_length [OF le] by simp
    have up: "GAME_POSITION (GET_X_POSITION ?p) (GET_Y_POSITION ?p + 1) = ?p + 1"
      using y by (intro GAME_POSITION_up) (simp add: row_above_top)
    have pk: "live_projectiles s ! k = ?p" using lt by (rule live_projectiles_nth)
    have live: "live_projectiles ?s
                  = (live_projectiles s)[k := live_projectiles s ! k + 1]"
      by (simp add: live_projectiles_move up pk)
    have "apart_at (Suc k) (live_projectiles ?s)"
      unfolding live by (rule apart_at_moved [OF ap len])
    moreover have "live_asteroids ?s = live_asteroids s"
      by (rule live_asteroids_cong) simp_all
    moreover have "bags_ok ?s"
      using b by (simp add: bags_ok_def MAX_ASTEROIDS_def MAX_PROJECTILES_def)
    ultimately show "I (Suc k) ?s" using I by (simp add: I_def)
  qed
  then obtain k where k: "I k g'" "\<not> int k < numProjectiles g'" by blast
  from k(1) have b: "bags_ok g'" and ap: "apart_at k (live_projectiles g')"
    by (simp_all add: I_def)
  have "int (length (live_projectiles g')) = numProjectiles g'"
    using b by (intro live_projectiles_length) (simp_all add: bags_ok_def)
  with k(2) have "length (live_projectiles g') \<le> k" by simp
  with ap have "distinct (live_projectiles g')" by (rule apart_at_end)
  with k(1) show ?thesis by (simp add: I_def)
qed

lemma advance_projectiles_inv:
  assumes "engine_inv g" and "advance_projectiles rnd g = Some g'"
  shows "engine_inv g'"
proof -
  from assms(2) have run: "advance_projectiles_loop rnd 0 g = Some g'"
    by (simp add: advance_projectiles_def)
  from assms(1) have "bags_ok g" "distinct (live_asteroids g)"
    "apart_at 0 (live_projectiles g)"
    by (simp_all add: engine_inv_def apart_at_start)
  from advance_projectiles_loop_apart [OF run this] show ?thesis
    by (simp add: engine_inv_def)
qed

section \<open>The asteroid pass keeps the asteroids apart\<close>

lemma row_of_int:
  assumes "0 \<le> y" and "y < 16"
  shows "(of_int y :: uint8) AND 0x0F = of_int y" and "unat (of_int y :: uint8) = nat y"
proof -
  have "(of_int y :: uint8) = of_nat (nat y)" using assms by simp
  moreover have "nat y < 16" using assms by simp
  ultimately show "(of_int y :: uint8) AND 0x0F = of_int y"
    and "unat (of_int y :: uint8) = nat y"
    by (simp_all only: small_word_of_nat)
qed

lemma rows_differ:
  assumes "0 \<le> y" and "y < 16" and "0 \<le> y'" and "y' < 16" and "y \<noteq> y'"
  shows "GAME_POSITION a (of_int y) \<noteq> GAME_POSITION b (of_int y')"
proof
  assume "GAME_POSITION a (of_int y) = GAME_POSITION b (of_int y')"
  then have "GET_Y_POSITION (GAME_POSITION a (of_int y))
               = GET_Y_POSITION (GAME_POSITION b (of_int y'))" by simp
  then have "(of_int y :: uint8) = of_int y'"
    using assms by (simp add: GET_Y_GAME_POSITION row_of_int)
  then have "unat (of_int y :: uint8) = unat (of_int y' :: uint8)" by simp
  with assms show False by (simp add: row_of_int)
qed

lemma row_15_differs:
  assumes "0 \<le> y" and "y < 15"
  shows "GAME_POSITION a (of_int y) \<noteq> GAME_POSITION b 15"
  using rows_differ [of y 15 a b] assms by simp

text \<open>The state after the asteroid found at a cell has been removed.\<close>

lemma asteroid_removed:
  assumes inv: "engine_inv g" and a: "asteroid_at g x y \<noteq> - 1"
  shows "engine_inv (remove_asteroid (asteroid_at g x y) g)"
    and "set (live_asteroids (remove_asteroid (asteroid_at g x y) g))
           = set (live_asteroids g) - {GAME_POSITION x y}"
    and "0 \<le> numAsteroids (remove_asteroid (asteroid_at g x y) g)"
    and "numAsteroids (remove_asteroid (asteroid_at g x y) g)
           < MAX_ASTEROIDS (remove_asteroid (asteroid_at g x y) g)"
proof -
  from asteroid_at_found [OF a] have i: "0 \<le> asteroid_at g x y"
    "asteroid_at g x y < numAsteroids g"
    "asteroids g ! nat (asteroid_at g x y) = GAME_POSITION x y" by simp_all
  show "engine_inv (remove_asteroid (asteroid_at g x y) g)"
    by (rule remove_asteroid_inv(1) [OF inv i(1,2)])
  show "set (live_asteroids (remove_asteroid (asteroid_at g x y) g))
           = set (live_asteroids g) - {GAME_POSITION x y}"
    using remove_asteroid_inv(2) [OF inv i(1,2)] i(3) by simp
  show "0 \<le> numAsteroids (remove_asteroid (asteroid_at g x y) g)"
    using i by (simp add: remove_asteroid_count)
  show "numAsteroids (remove_asteroid (asteroid_at g x y) g)
           < MAX_ASTEROIDS (remove_asteroid (asteroid_at g x y) g)"
    using i inv
    by (simp add: remove_asteroid_count engine_inv_def bags_ok_def MAX_ASTEROIDS_def)
qed

text \<open>A position that is put in the first unused slot, where it occurs nowhere else.\<close>

lemma asteroid_added:
  assumes inv: "engine_inv s" and n: "numAsteroids s < MAX_ASTEROIDS s"
    and fresh: "q \<notin> set (live_asteroids s)"
    and g': "numAsteroids g' = numAsteroids s + 1"
      "asteroids g' = (asteroids s)[nat (numAsteroids s) := q]"
      "numProjectiles g' = numProjectiles s" "projectiles g' = projectiles s"
  shows "engine_inv g'" and "live_asteroids g' = live_asteroids s @ [q]"
proof -
  from inv have n0: "0 \<le> numAsteroids s" by (simp add: engine_inv_def bags_ok_def)
  show live: "live_asteroids g' = live_asteroids s @ [q]"
    using live_asteroids_append [OF n0 n, of q] g' by (simp add: live_asteroids_def)
  have "live_projectiles g' = live_projectiles s"
    by (rule live_projectiles_cong [OF g'(3,4)])
  with inv n fresh live g' show "engine_inv g'"
    by (simp add: engine_inv_def bags_ok_def MAX_ASTEROIDS_def MAX_PROJECTILES_def)
qed

lemma cell_left_free:
  assumes "engine_inv g'" and "live_asteroids g' = xs @ [q]"
    and "GAME_POSITION x y \<notin> set xs" and "GAME_POSITION x y \<noteq> q"
  shows "asteroid_at g' x y = - 1"
proof -
  from assms(1) have "numAsteroids g' \<le> MAX_ASTEROIDS g'"
    by (simp add: engine_inv_def bags_ok_def)
  then show ?thesis using assms(2-4) by (simp add: asteroid_at_none)
qed

lemma regen_after_removal:
  assumes inv: "engine_inv g" and a: "asteroid_at g x y \<noteq> - 1"
    and s: "engine_inv s"
      "numAsteroids s = numAsteroids (remove_asteroid (asteroid_at g x y) g)"
      "asteroids s = asteroids (remove_asteroid (asteroid_at g x y) g)"
    and regen: "regen_asteroid rnd s = Some g'"
  shows "engine_inv g'"
    and "(\<And>c. GAME_POSITION x y \<noteq> GAME_POSITION c 15) \<Longrightarrow> asteroid_at g' x y = - 1"
proof -
  let ?s1 = "remove_asteroid (asteroid_at g x y) g"
  note r = asteroid_removed [OF inv a]
  have live: "live_asteroids s = live_asteroids ?s1"
    by (rule live_asteroids_cong [OF s(2,3)])
  have n: "numAsteroids s < MAX_ASTEROIDS s"
    using r(4) s(2,3) by (simp add: MAX_ASTEROIDS_def)
  from regen_asteroid_inv [OF regen s(1) n] obtain c where
    c: "engine_inv g'" "live_asteroids g' = live_asteroids s @ [GAME_POSITION (of_nat c) 15]"
    by blast
  show "engine_inv g'" by (rule c(1))
  assume row: "\<And>c. GAME_POSITION x y \<noteq> GAME_POSITION c 15"
  have "GAME_POSITION x y \<notin> set (live_asteroids s)" using live r(2) by simp
  then show "asteroid_at g' x y = - 1"
    by (rule cell_left_free [OF c(1,2) _ row])
qed

text \<open>
  One step of the pass, at a cell whose lower neighbour holds no asteroid: the invariant
  is kept, and below row 15 the cell is left without an asteroid.
\<close>

lemma advance_cell_inv:
  assumes cell: "advance_cell rnd x y g = Some g'" and inv: "engine_inv g"
    and y: "0 \<le> y" "y < 16"
    and below: "0 < y \<longrightarrow> asteroid_at g (of_int x) (of_int (y - 1)) = - 1"
  shows "engine_inv g' \<and> (y < 15 \<longrightarrow> asteroid_at g' (of_int x) (of_int y) = - 1)"
  using cell
proof (cases rule: advance_cell_cases)
  case none
  with inv show ?thesis by simp
next
  case hit_here
  let ?s1 = "remove_asteroid (asteroid_at g (of_int x) (of_int y)) g"
  let ?j = "projectile_at g (of_int x) (of_int y)"
  let ?s = "add_to_score 1 (remove_projectile ?j ?s1)"
  note r = asteroid_removed [OF inv hit_here(1)]
  from projectile_at_found [OF hit_here(2)]
  have j: "0 \<le> ?j" "?j < numProjectiles ?s1" by simp_all
  have "engine_inv (remove_projectile ?j ?s1)"
    by (rule remove_projectile_inv [OF r(1) j])
  moreover have "engine_inv ?s = engine_inv (remove_projectile ?j ?s1)"
    by (rule engine_inv_cong) (simp_all add: add_to_score_def)
  ultimately have s: "engine_inv ?s" by simp
  have same: "numAsteroids ?s = numAsteroids ?s1" "asteroids ?s = asteroids ?s1"
    by (simp_all add: add_to_score_def)
  note e = regen_after_removal [OF inv hit_here(1) s same hit_here(3)]
  have "asteroid_at g' (of_int x) (of_int y) = - 1" if "y < 15"
    using y(1) that by (intro e(2) row_15_differs)
  with e(1) show ?thesis by simp
next
  case hit_below
  let ?s1 = "remove_asteroid (asteroid_at g (of_int x) (of_int y)) g"
  let ?j = "projectile_at g (of_int x) (of_int (y - 1))"
  let ?s = "add_to_score 1 (remove_projectile ?j ?s1)"
  note r = asteroid_removed [OF inv hit_below(1)]
  from projectile_at_found [OF hit_below(3)]
  have j: "0 \<le> ?j" "?j < numProjectiles ?s1" by simp_all
  have "engine_inv (remove_projectile ?j ?s1)"
    by (rule remove_projectile_inv [OF r(1) j])
  moreover have "engine_inv ?s = engine_inv (remove_projectile ?j ?s1)"
    by (rule engine_inv_cong) (simp_all add: add_to_score_def)
  ultimately have s: "engine_inv ?s" by simp
  have same: "numAsteroids ?s = numAsteroids ?s1" "asteroids ?s = asteroids ?s1"
    by (simp_all add: add_to_score_def)
  note e = regen_after_removal [OF inv hit_below(1) s same hit_below(4)]
  have "asteroid_at g' (of_int x) (of_int y) = - 1" if "y < 15"
    using y(1) that by (intro e(2) row_15_differs)
  with e(1) show ?thesis by simp
next
  case base
  let ?s1 = "remove_asteroid (asteroid_at g (of_int x) (of_int y)) g"
  let ?s = "enable_basehit_sound (?s1\<lparr>lives := lives g - 1\<rparr>)"
  note r = asteroid_removed [OF inv base(1)]
  have "engine_inv ?s = engine_inv ?s1"
    by (rule engine_inv_cong) (simp_all add: enable_basehit_sound_def)
  with r(1) have s: "engine_inv ?s" by simp
  have same: "numAsteroids ?s = numAsteroids ?s1" "asteroids ?s = asteroids ?s1"
    by (simp_all add: enable_basehit_sound_def)
  note e = regen_after_removal [OF inv base(1) s same base(5)]
  have "asteroid_at g' (of_int x) (of_int y) = - 1" if "y < 15"
    using y(1) that by (intro e(2) row_15_differs)
  with e(1) show ?thesis by simp
next
  case down
  let ?s1 = "remove_asteroid (asteroid_at g (of_int x) (of_int y)) g"
  let ?q = "GAME_POSITION (of_int x) (of_int (y - 1))"
  note r = asteroid_removed [OF inv down(1)]
  from inv have n: "numAsteroids g \<le> MAX_ASTEROIDS g"
    by (simp add: engine_inv_def bags_ok_def)
  have "?q \<notin> set (live_asteroids g)"
    using below down(5) y(1) n by (simp add: asteroid_at_none)
  then have fresh: "?q \<notin> set (live_asteroids ?s1)" using r(2) by simp
  have g': "numAsteroids g' = numAsteroids ?s1 + 1"
    "asteroids g' = (asteroids ?s1)[nat (numAsteroids ?s1) := ?q]"
    "numProjectiles g' = numProjectiles ?s1" "projectiles g' = projectiles ?s1"
    using down(6) by simp_all
  note e = asteroid_added [OF r(1,4) fresh g']
  have ne: "GAME_POSITION (of_int x) (of_int y) \<noteq> ?q"
    using y down(5) by (intro rows_differ) simp_all
  have "GAME_POSITION (of_int x) (of_int y) \<notin> set (live_asteroids ?s1)"
    using r(2) by simp
  then have "asteroid_at g' (of_int x) (of_int y) = - 1"
    by (rule cell_left_free [OF e(1,2) _ ne])
  with e(1) show ?thesis by simp
next
  case (respawn new_x k)
  let ?s1 = "remove_asteroid (asteroid_at g (of_int x) (of_int y)) g"
  let ?g2 = "?s1\<lparr>numAsteroids := numAsteroids ?s1 + 1\<rparr>"
  let ?q = "GAME_POSITION new_x 15"
  note r = asteroid_removed [OF inv respawn(1)]
  from free_column_Some [OF respawn(5)] have "asteroid_at ?g2 new_x 15 = - 1" by simp
  moreover have "numAsteroids ?g2 \<le> MAX_ASTEROIDS ?g2"
    using r(4) by (simp add: MAX_ASTEROIDS_def)
  ultimately have "?q \<notin> set (live_asteroids ?g2)" by (simp add: asteroid_at_none)
  moreover have "set (live_asteroids ?s1) \<subseteq> set (live_asteroids ?g2)"
    using r(3) by (simp add: live_asteroids_def set_take_subset_set_take)
  ultimately have fresh: "?q \<notin> set (live_asteroids ?s1)" by blast
  have g': "numAsteroids g' = numAsteroids ?s1 + 1"
    "asteroids g' = (asteroids ?s1)[nat (numAsteroids ?s1) := ?q]"
    "numProjectiles g' = numProjectiles ?s1" "projectiles g' = projectiles ?s1"
    using respawn(6) by simp_all
  note e = asteroid_added [OF r(1,4) fresh g']
  have ne: "GAME_POSITION (of_int x) (of_int y) \<noteq> ?q"
    using respawn(4) by (intro row_15_differs) simp_all
  have "GAME_POSITION (of_int x) (of_int y) \<notin> set (live_asteroids ?s1)"
    using r(2) by simp
  then have "asteroid_at g' (of_int x) (of_int y) = - 1"
    by (rule cell_left_free [OF e(1,2) _ ne])
  with e(1) show ?thesis by simp
qed

lemma advance_asteroids_y_inv:
  assumes "advance_asteroids_y rnd x 0 g = Some g'" and "engine_inv g"
  shows "engine_inv g'"
proof -
  define I where "I = (\<lambda>(y :: int) (s :: game). engine_inv s
      \<and> (0 < y \<and> y < 16 \<longrightarrow> asteroid_at s (of_int x) (of_int (y - 1)) = - 1))"
  have "I 16 g'"
  proof (rule advance_asteroids_y_invariant [of rnd x 0 g g' I, OF assms(1)])
    show "I 0 g" using assms(2) by (simp add: I_def)
  next
    fix y :: int and s s' :: game
    assume I: "I y s" and y: "0 \<le> y" "y < 16" and cell: "advance_cell rnd x y s = Some s'"
    from I y have inv: "engine_inv s"
      and below: "0 < y \<longrightarrow> asteroid_at s (of_int x) (of_int (y - 1)) = - 1"
      by (simp_all add: I_def)
    from advance_cell_inv [OF cell inv y below] show "I (y + 1) s'"
      by (simp add: I_def)
  qed simp_all
  then show ?thesis by (simp add: I_def)
qed

lemma advance_asteroids_inv:
  assumes "engine_inv g" and "advance_asteroids rnd g = Some g'"
  shows "engine_inv g'"
proof -
  from assms(2) have run: "advance_asteroids_x rnd 0 g = Some g'"
    by (simp add: advance_asteroids_def)
  show ?thesis
  proof (rule advance_asteroids_x_invariant
      [of rnd 0 g g' "\<lambda>(x :: int) (s :: game). engine_inv s", OF run])
    fix x :: int and s s' :: game
    assume "engine_inv s" and "advance_asteroids_y rnd x 0 s = Some s'"
    then show "engine_inv s'" by (rule advance_asteroids_y_inv [rotated])
  qed (simp_all add: assms(1))
qed

lemma reachable_inv:
  assumes "reachable rnd g"
  shows "engine_inv g"
  using assms
proof (induction rule: reachable.induct)
  case (start g0 now g)
  then show ?case by (rule new_game_inv)
next
  case (move g d r g')
  from move.IH move(3) show ?case by (rule move_base_inv)
next
  case (fire g r g')
  from fire.IH fire(3) show ?case by (rule fire_projectile_inv)
next
  case (asteroids g g')
  from asteroids.IH asteroids(3) show ?case by (rule advance_asteroids_inv)
next
  case (projectiles g g')
  from projectiles.IH projectiles(3) show ?case by (rule advance_projectiles_inv)
next
  case (alarm g t1 t2)
  then show ?case by (simp add: handle_basehit_sound_inv)
qed

text \<open>
  C2. In every reachable state no two asteroids are in one cell and no two projectiles
  are in one cell: this holds after \<open>new_game\<close> (that is, after \<open>initialise_game\<close>) and
  is kept by \<open>move_base\<close>, \<open>fire_projectile\<close>, \<open>advance_asteroids\<close> and
  \<open>advance_projectiles\<close>, which is how a state is reached; and from such a state with
  room in the asteroid array \<open>regen_asteroid\<close> alone keeps it too.
\<close>

theorem no_two_in_one_cell:
  assumes "reachable rnd g"
  shows "no_shared_cell g
         \<and> (numAsteroids g < MAX_ASTEROIDS g \<and> regen_asteroid rnd g = Some g'
              \<longrightarrow> no_shared_cell g')"
proof -
  from assms have inv: "engine_inv g" by (rule reachable_inv)
  have "no_shared_cell g'"
    if "numAsteroids g < MAX_ASTEROIDS g" and "regen_asteroid rnd g = Some g'"
  proof -
    from regen_asteroid_inv [OF that(2) inv that(1)] have "engine_inv g'" by blast
    then show ?thesis by (simp add: engine_inv_def no_shared_cell_iff)
  qed
  with inv show ?thesis by (simp add: engine_inv_def no_shared_cell_iff)
qed

theorem no_two_in_one_cell_witness:
  "reachable hit_draws out_of_lives_state
   \<and> numAsteroids out_of_lives_state < MAX_ASTEROIDS out_of_lives_state
   \<and> regen_asteroid hit_draws out_of_lives_state
       = Some \<lparr>basePosition = 5, numProjectiles = 0, projectiles = [0, 0],
           numAsteroids = 4, asteroids = [47, 15, 31, 63, 96], lives = - 1,
           score = 0, rcalls = 14, base_hit_sound = 1, basehit_sequence = 1,
           basehit_time = 0\<rparr>
   \<and> no_shared_cell out_of_lives_state
   \<and> no_shared_cell \<lparr>basePosition = 5, numProjectiles = 0, projectiles = [0, 0],
           numAsteroids = 4, asteroids = [47, 15, 31, 63, 96], lives = - 1,
           score = 0, rcalls = 14, base_hit_sound = 1, basehit_sequence = 1,
           basehit_time = 0\<rparr>"
proof -
  have h: "numAsteroids out_of_lives_state < MAX_ASTEROIDS out_of_lives_state"
    "regen_asteroid hit_draws out_of_lives_state
       = Some \<lparr>basePosition = 5, numProjectiles = 0, projectiles = [0, 0],
           numAsteroids = 4, asteroids = [47, 15, 31, 63, 96], lives = - 1,
           score = 0, rcalls = 14, base_hit_sound = 1, basehit_sequence = 1,
           basehit_time = 0\<rparr>"
    by code_simp+
  from no_two_in_one_cell [OF out_of_lives_reachable] h out_of_lives_reachable
  show ?thesis by blast
qed

end
